theory Spec2Isabelle
  imports Main "HOL-Library.Word" "HOL-Library.Sublist" "HOL-Library.Multiset"
begin

unbundle bit_operations_syntax

section \<open>Strings\<close>

text \<open>
  A Go \<open>string\<close> is a sequence of bytes: \<open>len\<close> counts bytes and \<open>s[:n]\<close> cuts at a
  byte. It is modelled by \<open>string\<close>, a list of 8-bit characters, so one character of a
  model string is one byte of the Go string.
\<close>

text \<open>\<open>strings.Contains(s, substr)\<close>: \<open>substr\<close> occurs in \<open>s\<close> at some offset.\<close>

fun Contains :: "string \<Rightarrow> string \<Rightarrow> bool" where
  "Contains [] substr = (substr = [])"
| "Contains (c # s) substr = (prefix substr (c # s) \<or> Contains s substr)"

text \<open>
  \<open>strings.ToLower\<close> maps every Unicode letter to lower case and needs the Unicode
  tables of the Go library, which are no part of the repository. Every function that
  calls it takes it as the parameter \<open>lower\<close>, and the theorems hold for every such
  function. \<open>lowerASCII\<close> is what \<open>strings.ToLower\<close> computes on a string of ASCII
  bytes; it is the instance used where a concrete run is evaluated.
\<close>

definition lowerByte :: "char \<Rightarrow> char" where
  \<comment> \<open>\<open>A\<close> to \<open>Z\<close> (65 to 90) plus 32: bit 5 is set\<close>
  "lowerByte c =
     (if (65::nat) \<le> of_char c \<and> of_char c \<le> (90::nat)
      then (case c of Char b0 b1 b2 b3 b4 b5 b6 b7 \<Rightarrow> Char b0 b1 b2 b3 b4 True b6 b7)
      else c)"

definition lowerASCII :: "string \<Rightarrow> string" where
  "lowerASCII s = map lowerByte s"

section \<open>Data model\<close>

text \<open>
  \<open>Count\<close> is a Go \<open>int\<close>: 64 bits, two's complement, on the platforms the program is
  built for; \<open>Count++\<close> wraps around.
\<close>

record Bookmark =
  Path :: string
  Name :: string
  Count :: "64 word"

record Config =
  Bookmarks :: "Bookmark list"

text \<open>
  The state of the selector. \<open>filter_str\<close> is the field \<open>filter\<close> of the source.
  \<open>cursor\<close> and the elements of \<open>filtered\<close> are Go \<open>int\<close>s that the program only
  ever compares with lengths and moves by one; they are modelled by \<open>int\<close>, so that an
  index below zero is a value of the model.
\<close>

record model =
  bookmarks :: "Bookmark list"
  filtered :: "int list"
  cursor :: int
  filter_str :: string
  editing :: bool
  editValue :: string
  selectedPath :: string

text \<open>
  The key messages of the terminal library. \<open>KeyOther\<close> stands for every key type the
  program has no case for. The string of a \<open>KeyMsg\<close> is \<open>string(msg.Runes)\<close>, the only
  way the program reads the runes of a key. \<open>OtherMsg\<close> is a message that is no key.
\<close>

datatype KeyType =
  KeyRunes | KeyEnter | KeyEsc | KeyBackspace | KeySpace | KeyCtrlC | KeyUp | KeyDown | KeyOther

datatype Msg = KeyMsg KeyType string | OtherMsg

text \<open>The command returned with the new state: \<open>nil\<close> or \<open>tea.Quit\<close>.\<close>

datatype Cmd = CmdNil | Quit

text \<open>A run-time panic of Go: an index or a slice bound out of range.\<close>

datatype panic = IndexOutOfRange | SliceBoundsOutOfRange

definition elem_at :: "'a list \<Rightarrow> int \<Rightarrow> panic + 'a" where
  "elem_at xs i =
     (if 0 \<le> i \<and> i < int (length xs) then Inr (xs ! nat i) else Inl IndexOutOfRange)"

definition modify_at :: "'a list \<Rightarrow> int \<Rightarrow> ('a \<Rightarrow> 'a) \<Rightarrow> panic + 'a list" where
  "modify_at xs i f =
     (if 0 \<le> i \<and> i < int (length xs) then Inr (xs[nat i := f (xs ! nat i)])
      else Inl IndexOutOfRange)"

text \<open>\<open>append(xs[:idx], xs[idx+1:]...)\<close>: the slice without its element at \<open>idx\<close>.\<close>

definition remove_at :: "'a list \<Rightarrow> int \<Rightarrow> panic + 'a list" where
  "remove_at xs idx =
     (if 0 \<le> idx \<and> idx < int (length xs)
      then Inr (take (nat idx) xs @ drop (nat idx + 1) xs)
      else Inl SliceBoundsOutOfRange)"

section \<open>The store document\<close>

text \<open>
  The Go library's \<open>encoding/json\<close> and \<open>os\<close> are no part of the repository. They are
  modelled from their documentation, at the level of the JSON value a text denotes:
  \<open>JSON v\<close> is a file content that is the JSON text of \<open>v\<close>, \<open>Garbage\<close> one that is no
  JSON text at all. \<open>JInt n\<close> is a number written as an integer, \<open>JFloat\<close> a number written
  with a fraction or an exponent. The members of an object are kept in the order of the
  text.
\<close>

datatype json =
  JNull | JBool bool | JInt int | JFloat | JString string
  | JArray "json list" | JObject "(string \<times> json) list"

datatype data = Garbage | JSON json

datatype error = ErrNotExist | ErrRead | ErrMkdir | ErrWrite | SyntaxError | UnmarshalTypeError

subsection \<open>UTF-8\<close>

definition cont_byte :: "nat \<Rightarrow> bool" where
  "cont_byte b = (128 \<le> b \<and> b \<le> 191)"

text \<open>
  The number of bytes of the UTF-8 encoding that starts the string, as
  \<open>utf8.DecodeRuneInString\<close> accepts it; 0 when the first byte starts none.
\<close>

fun rune_len :: "string \<Rightarrow> nat" where
  "rune_len [] = 0"
| "rune_len (a # s) =
     (let x = (of_char a :: nat) in
      if x < 128 then 1
      else if 194 \<le> x \<and> x \<le> 223 then
        (case s of b # _ \<Rightarrow> if cont_byte (of_char b) then 2 else 0 | _ \<Rightarrow> 0)
      else if 224 \<le> x \<and> x \<le> 239 then
        (case s of
           b # c # _ \<Rightarrow>
             if (if x = 224 then 160 else 128) \<le> (of_char b :: nat)
                \<and> (of_char b :: nat) \<le> (if x = 237 then 159 else 191)
                \<and> cont_byte (of_char c)
             then 3 else 0
         | _ \<Rightarrow> 0)
      else if 240 \<le> x \<and> x \<le> 244 then
        (case s of
           b # c # d # _ \<Rightarrow>
             if (if x = 240 then 144 else 128) \<le> (of_char b :: nat)
                \<and> (of_char b :: nat) \<le> (if x = 244 then 143 else 191)
                \<and> cont_byte (of_char c) \<and> cont_byte (of_char d)
             then 4 else 0
         | _ \<Rightarrow> 0)
      else 0)"

text \<open>\<open>utf8.ValidString\<close>: the string is a sequence of UTF-8 encodings.\<close>

fun ValidString :: "string \<Rightarrow> bool" where
  "ValidString [] = True"
| "ValidString (a # s) =
     (rune_len (a # s) \<noteq> 0 \<and> ValidString (drop (rune_len (a # s) - 1) s))"

text \<open>
  What \<open>json.Marshal\<close> writes for a string: the string coerced to valid UTF-8, every
  byte that starts no encoding replaced by the encoding of U+FFFD.
\<close>

fun toValidUTF8 :: "string \<Rightarrow> string" where
  "toValidUTF8 [] = []"
| "toValidUTF8 (a # s) =
     (if rune_len (a # s) = 0
      then [CHR 0xEF, CHR 0xBF, CHR 0xBD] @ toValidUTF8 s
      else take (rune_len (a # s)) (a # s) @ toValidUTF8 (drop (rune_len (a # s) - 1) s))"

subsection \<open>Writing the document\<close>

text \<open>
  \<open>json.MarshalIndent\<close> of a \<open>Config\<close>: one object with the member \<open>bookmarks\<close>, an
  array with one object for each record: \<open>path\<close>, then \<open>name\<close> unless it is empty
  (\<open>omitempty\<close>), then \<open>count\<close>. It returns no error for this type. (A nil slice is
  written \<open>null\<close> and read back as a nil slice; nil and the empty slice are both the
  empty list here.)
\<close>

definition marshalBookmark :: "Bookmark \<Rightarrow> json" where
  "marshalBookmark b =
     JObject ([(''path'', JString (toValidUTF8 (Path b)))]
              @ (if Name b = [] then [] else [(''name'', JString (toValidUTF8 (Name b)))])
              @ [(''count'', JInt (sint (Count b)))])"

definition json_MarshalIndent :: "Config \<Rightarrow> error + data" where
  "json_MarshalIndent config =
     Inr (JSON (JObject [(''bookmarks'', JArray (map marshalBookmark (Bookmarks config)))]))"

subsection \<open>Reading the document\<close>

text \<open>
  A member of a JSON object is decoded into the struct field whose name it equals or, failing
  that, equals after case folding. The folded name of an ASCII field is its upper-case form;
  besides the ASCII letters only U+212A (the Kelvin sign, bytes E2 84 AA) folds to \<open>K\<close> and
  U+017F (the long s, bytes C5 BF) to \<open>S\<close>. \<open>foldName\<close> gives the folded name of a key when
  it is ASCII, and \<open>None\<close> when it is not (then it matches no field of these structs).
\<close>

definition upperByte :: "char \<Rightarrow> char" where
  \<comment> \<open>\<open>a\<close> to \<open>z\<close> (97 to 122) minus 32: bit 5 is cleared\<close>
  "upperByte c =
     (if (97::nat) \<le> of_char c \<and> of_char c \<le> (122::nat)
      then (case c of Char b0 b1 b2 b3 b4 b5 b6 b7 \<Rightarrow> Char b0 b1 b2 b3 b4 False b6 b7)
      else c)"

fun foldName :: "string \<Rightarrow> string option" where
  "foldName [] = Some []"
| "foldName (a # s) =
     (if (of_char a :: nat) < 128 then map_option ((#) (upperByte a)) (foldName s)
      else if prefix [CHR 0xE2, CHR 0x84, CHR 0xAA] (a # s)
        then map_option ((#) CHR ''K'') (foldName (drop 2 s))
      else if prefix [CHR 0xC5, CHR 0xBF] (a # s)
        then map_option ((#) CHR ''S'') (foldName (drop 1 s))
      else None)"

definition matchField :: "string \<Rightarrow> string \<Rightarrow> bool" where
  "matchField key field = (key = field \<or> foldName key = Some (map upperByte field))"

text \<open>
  Decoding a value into a field gives the new value of the field and whether a type error
  was recorded. \<open>null\<close> leaves a string or an integer as it is and makes a slice nil. A
  value of the wrong type (also a number that is no integer of 64 bits, for an \<open>int\<close>)
  records an \<open>UnmarshalTypeError\<close>, leaves the field as it is, and decoding goes on with the
  rest of the document.
\<close>

definition decodeString :: "json \<Rightarrow> string \<Rightarrow> string \<times> bool" where
  "decodeString v old =
     (case v of JString s \<Rightarrow> (s, False) | JNull \<Rightarrow> (old, False) | _ \<Rightarrow> (old, True))"

definition decodeInt :: "json \<Rightarrow> 64 word \<Rightarrow> 64 word \<times> bool" where
  "decodeInt v old =
     (case v of
        JInt n \<Rightarrow> if - (2 ^ 63) \<le> n \<and> n < 2 ^ 63 then (word_of_int n, False) else (old, True)
      | JNull \<Rightarrow> (old, False)
      | _ \<Rightarrow> (old, True))"

fun decodeBookmarkMembers :: "(string \<times> json) list \<Rightarrow> Bookmark \<Rightarrow> Bookmark \<times> bool" where
  "decodeBookmarkMembers [] b = (b, False)"
| "decodeBookmarkMembers ((k, v) # ms) b =
     (let (b1, e1) =
            (if matchField k ''path''
               then (let (s, e) = decodeString v (Path b) in (b\<lparr>Path := s\<rparr>, e))
             else if matchField k ''name''
               then (let (s, e) = decodeString v (Name b) in (b\<lparr>Name := s\<rparr>, e))
             else if matchField k ''count''
               then (let (n, e) = decodeInt v (Count b) in (b\<lparr>Count := n\<rparr>, e))
             else (b, False));
          (b2, e2) = decodeBookmarkMembers ms b1
      in (b2, e1 \<or> e2))"

definition decodeBookmark :: "json \<Rightarrow> Bookmark \<Rightarrow> Bookmark \<times> bool" where
  "decodeBookmark v b =
     (case v of JObject ms \<Rightarrow> decodeBookmarkMembers ms b | JNull \<Rightarrow> (b, False) | _ \<Rightarrow> (b, True))"

definition zeroBookmark :: Bookmark where
  "zeroBookmark = \<lparr>Path = [], Name = [], Count = 0\<rparr>"

text \<open>
  An array is decoded element by element into the slice: onto the element already at that
  index when the slice has one (a member that occurs twice), else onto a zero record; the
  slice ends with the array. (Go may also reuse capacity left behind by an earlier, longer
  array of the same document; that needs the member three times and is not modelled.)
\<close>

fun decodeElems :: "json list \<Rightarrow> Bookmark list \<Rightarrow> Bookmark list \<times> bool" where
  "decodeElems [] old = ([], False)"
| "decodeElems (v # vs) old =
     (let (b, e1) = decodeBookmark v (case old of [] \<Rightarrow> zeroBookmark | b0 # _ \<Rightarrow> b0);
          (bs, e2) = decodeElems vs (tl old)
      in (b # bs, e1 \<or> e2))"

definition decodeSlice :: "json \<Rightarrow> Bookmark list \<Rightarrow> Bookmark list \<times> bool" where
  "decodeSlice v old =
     (case v of JArray vs \<Rightarrow> decodeElems vs old | JNull \<Rightarrow> ([], False) | _ \<Rightarrow> (old, True))"

fun decodeConfigMembers :: "(string \<times> json) list \<Rightarrow> Config \<Rightarrow> Config \<times> bool" where
  "decodeConfigMembers [] c = (c, False)"
| "decodeConfigMembers ((k, v) # ms) c =
     (let (c1, e1) =
            (if matchField k ''bookmarks''
               then (let (bs, e) = decodeSlice v (Bookmarks c) in (c\<lparr>Bookmarks := bs\<rparr>, e))
             else (c, False));
          (c2, e2) = decodeConfigMembers ms c1
      in (c2, e1 \<or> e2))"

text \<open>
  \<open>json.Unmarshal(data, &config)\<close>: the new value of \<open>config\<close> and the error. A text that
  is no JSON is refused before anything is stored (a \<open>SyntaxError\<close>); a type error is
  returned after the rest of the document has been decoded.
\<close>

definition json_Unmarshal :: "data \<Rightarrow> Config \<Rightarrow> Config \<times> error option" where
  "json_Unmarshal d config =
     (case d of
        Garbage \<Rightarrow> (config, Some SyntaxError)
      | JSON v \<Rightarrow>
          (case v of
             JObject ms \<Rightarrow>
               (let (c, e) = decodeConfigMembers ms config
                in (c, if e then Some UnmarshalTypeError else None))
           | JNull \<Rightarrow> (config, None)
           | _ \<Rightarrow> (config, Some UnmarshalTypeError)))"

subsection \<open>What a document says\<close>

text \<open>
  The reading of a document that the decoder is compared with. \<open>members_named\<close> gives the
  values of the members of an object that \<open>encoding/json\<close> takes for a field, in their
  order. \<open>string_or\<close> and \<open>int_or\<close> read the one value written for a field: the string, or
  the integer of 64 bits, and else (no value, \<open>null\<close>, a value of another type, more than one
  value) a default. \<open>written_record\<close> is the record that an element of the array says, with
  zero values as defaults, and \<open>single_fields\<close> holds of an element that has no field twice.
\<close>

definition members_named :: "string \<Rightarrow> (string \<times> json) list \<Rightarrow> json list" where
  "members_named field ms = map snd (filter (\<lambda>(k, v). matchField k field) ms)"

definition string_or :: "string \<Rightarrow> json list \<Rightarrow> string" where
  "string_or old vs = (case vs of [JString s] \<Rightarrow> s | _ \<Rightarrow> old)"

definition int_or :: "64 word \<Rightarrow> json list \<Rightarrow> 64 word" where
  "int_or old vs =
     (case vs of
        [JInt n] \<Rightarrow> if - (2 ^ 63) \<le> n \<and> n < 2 ^ 63 then word_of_int n else old
      | _ \<Rightarrow> old)"



subsection \<open>The file\<close>

text \<open>
  The file system as far as the program touches it: the document at the path
  \<open>getConfigPath()\<close> (\<open>None\<close>: no such file) and whether reading it, creating its
  directory and writing it fail. A write that fails is modelled as leaving the document
  as it was.
\<close>

record fs =
  document :: "data option"
  read_fails :: bool
  mkdir_fails :: bool
  write_fails :: bool

definition os_ReadFile :: "fs \<Rightarrow> error + data" where
  "os_ReadFile s =
     (case document s of
        None \<Rightarrow> Inl ErrNotExist
      | Some d \<Rightarrow> if read_fails s then Inl ErrRead else Inr d)"

definition os_MkdirAll :: "fs \<Rightarrow> error option" where
  "os_MkdirAll s = (if mkdir_fails s then Some ErrMkdir else None)"

definition os_WriteFile :: "data \<Rightarrow> fs \<Rightarrow> fs \<times> error option" where
  "os_WriteFile d s =
     (if write_fails s then (s, Some ErrWrite) else (s\<lparr>document := Some d\<rparr>, None))"

section \<open>Store: \<open>loadConfig\<close> and \<open>saveConfig\<close>\<close>

text \<open>\<open>loadConfig\<close> drops the error of \<open>json.Unmarshal\<close> and returns \<open>config\<close> as it is then.\<close>

definition loadConfig :: "fs \<Rightarrow> Config" where
  "loadConfig s =
     (case os_ReadFile s of
        Inl err \<Rightarrow> \<lparr>Bookmarks = []\<rparr>
      | Inr d \<Rightarrow> fst (json_Unmarshal d \<lparr>Bookmarks = []\<rparr>))"

definition saveConfig :: "Config \<Rightarrow> fs \<Rightarrow> fs \<times> error option" where
  "saveConfig config s =
     (case os_MkdirAll s of
        Some err \<Rightarrow> (s, Some err)
      | None \<Rightarrow>
          (case json_MarshalIndent config of
             Inl err \<Rightarrow> (s, Some err)
           | Inr d \<Rightarrow> os_WriteFile d s))"

section \<open>Sorting and filtering\<close>

text \<open>
  \<open>sort.Slice\<close> belongs to the Go library; \<open>sortBookmarks\<close> takes it as the parameter
  \<open>sort_Slice\<close>, a function from the \<open>less\<close> of the call and the slice to the sorted slice.
  \<open>less(i, j)\<close> of the source reads the two elements at \<open>i\<close> and \<open>j\<close>; here it is given
  the two elements.
\<close>

type_synonym sorter = "(Bookmark \<Rightarrow> Bookmark \<Rightarrow> bool) \<Rightarrow> Bookmark list \<Rightarrow> Bookmark list"

definition sortBookmarks :: "sorter \<Rightarrow> Bookmark list \<Rightarrow> Bookmark list" where
  "sortBookmarks sort_Slice bs = sort_Slice (\<lambda>a b. Count b <s Count a) bs"

text \<open>The loop of \<open>filterBookmarks\<close> over the records from index \<open>i\<close> on.\<close>

fun filterLoop :: "(string \<Rightarrow> string) \<Rightarrow> string \<Rightarrow> int \<Rightarrow> Bookmark list \<Rightarrow> int list" where
  "filterLoop lower f i [] = []"
| "filterLoop lower f i (b # bs) =
     (if Contains (lower (Name b)) f \<or> Contains (lower (Path b)) f
      then i # filterLoop lower f (i + 1) bs
      else filterLoop lower f (i + 1) bs)"

definition filterBookmarks :: "(string \<Rightarrow> string) \<Rightarrow> Bookmark list \<Rightarrow> string \<Rightarrow> int list" where
  "filterBookmarks lower bs f =
     (if f = [] then map int [0..<length bs] else filterLoop lower (lower f) 0 bs)"

definition initialModel :: "(string \<Rightarrow> string) \<Rightarrow> sorter \<Rightarrow> fs \<Rightarrow> model" where
  "initialModel lower sort_Slice s =
     (let bs = sortBookmarks sort_Slice (Bookmarks (loadConfig s))
      in \<lparr>bookmarks = bs, filtered = filterBookmarks lower bs [], cursor = 0,
          filter_str = [], editing = False, editValue = [], selectedPath = []\<rparr>)"

section \<open>The selector: \<open>Update\<close>\<close>

text \<open>
  \<open>Update\<close> returns the new state and the command, or panics; the file system is threaded
  through, since three of its branches call \<open>saveConfig\<close> (and drop its error). The
  definition is split along the branches of the source: the keys while \<open>m.editing\<close>, the
  rune keys while browsing, and the rest.
\<close>

definition setName :: "string \<Rightarrow> Bookmark \<Rightarrow> Bookmark" where
  "setName v b = b\<lparr>Name := v\<rparr>"

definition incCount :: "Bookmark \<Rightarrow> Bookmark" where
  "incCount b = b\<lparr>Count := Count b + 1\<rparr>"

definition UpdateEditing :: "model \<Rightarrow> KeyType \<Rightarrow> string \<Rightarrow> fs \<Rightarrow> panic + (model \<times> Cmd \<times> fs)" where
  "UpdateEditing m t runes s =
     (case t of
        KeyEnter \<Rightarrow>
          if 0 < length (filtered m) then
            (case elem_at (filtered m) (cursor m) of
               Inl p \<Rightarrow> Inl p
             | Inr idx \<Rightarrow>
                 (case modify_at (bookmarks m) idx (setName (editValue m)) of
                    Inl p \<Rightarrow> Inl p
                  | Inr bs \<Rightarrow>
                      Inr (m\<lparr>bookmarks := bs, editing := False, editValue := []\<rparr>, CmdNil,
                           fst (saveConfig \<lparr>Bookmarks = bs\<rparr> s))))
          else Inr (m\<lparr>editing := False, editValue := []\<rparr>, CmdNil, s)
      | KeyEsc \<Rightarrow> Inr (m\<lparr>editing := False, editValue := []\<rparr>, CmdNil, s)
      | KeyBackspace \<Rightarrow>
          if 0 < length (editValue m)
          then Inr (m\<lparr>editValue := take (length (editValue m) - 1) (editValue m)\<rparr>, CmdNil, s)
          else Inr (m, CmdNil, s)
      | KeySpace \<Rightarrow> Inr (m\<lparr>editValue := editValue m @ '' ''\<rparr>, CmdNil, s)
      | KeyRunes \<Rightarrow> Inr (m\<lparr>editValue := editValue m @ runes\<rparr>, CmdNil, s)
      | _ \<Rightarrow> Inr (m, CmdNil, s))"

text \<open>The end of the \<open>KeyRunes\<close> case: the typed text is added to the filter.\<close>

definition addToFilter :: "(string \<Rightarrow> string) \<Rightarrow> model \<Rightarrow> string \<Rightarrow> model" where
  "addToFilter lower m char =
     m\<lparr>filter_str := filter_str m @ char,
       filtered := filterBookmarks lower (bookmarks m) (filter_str m @ char),
       cursor := 0\<rparr>"

definition UpdateRunes ::
  "(string \<Rightarrow> string) \<Rightarrow> model \<Rightarrow> string \<Rightarrow> fs \<Rightarrow> panic + (model \<times> Cmd \<times> fs)" where
  "UpdateRunes lower m char s =
     (if filter_str m = [] then
        (if char = ''q'' then Inr (m, Quit, s)
         else if char = ''e'' then
           (if 0 < length (filtered m) then
              (case elem_at (filtered m) (cursor m) of
                 Inl p \<Rightarrow> Inl p
               | Inr idx \<Rightarrow>
                   (case elem_at (bookmarks m) idx of
                      Inl p \<Rightarrow> Inl p
                    | Inr b \<Rightarrow> Inr (m\<lparr>editing := True, editValue := Name b\<rparr>, CmdNil, s)))
            else Inr (m, CmdNil, s))
         else if char = ''d'' then
           (if 0 < length (filtered m) then
              (case elem_at (filtered m) (cursor m) of
                 Inl p \<Rightarrow> Inl p
               | Inr idx \<Rightarrow>
                   (case remove_at (bookmarks m) idx of
                      Inl p \<Rightarrow> Inl p
                    | Inr bs \<Rightarrow>
                        (let fl = filterBookmarks lower bs (filter_str m)
                         in Inr (m\<lparr>bookmarks := bs, filtered := fl,
                                   cursor := (if int (length fl) \<le> cursor m \<and> 0 < cursor m
                                              then cursor m - 1 else cursor m)\<rparr>,
                                 CmdNil, fst (saveConfig \<lparr>Bookmarks = bs\<rparr> s)))))
            else Inr (m, CmdNil, s))
         else if char = ''j'' then
           Inr ((if cursor m < int (length (filtered m)) - 1
                 then m\<lparr>cursor := cursor m + 1\<rparr> else m), CmdNil, s)
         else if char = ''k'' then
           Inr ((if 0 < cursor m then m\<lparr>cursor := cursor m - 1\<rparr> else m), CmdNil, s)
         else Inr (addToFilter lower m char, CmdNil, s))
      else Inr (addToFilter lower m char, CmdNil, s))"

definition Update :: "(string \<Rightarrow> string) \<Rightarrow> model \<Rightarrow> Msg \<Rightarrow> fs \<Rightarrow> panic + (model \<times> Cmd \<times> fs)" where
  "Update lower m msg s =
     (case msg of
        OtherMsg \<Rightarrow> Inr (m, CmdNil, s)
      | KeyMsg t runes \<Rightarrow>
          if editing m then UpdateEditing m t runes s
          else
            (case t of
               KeyCtrlC \<Rightarrow> Inr (m, Quit, s)
             | KeyEsc \<Rightarrow>
                 if filter_str m \<noteq> []
                 then Inr (m\<lparr>filter_str := [],
                             filtered := filterBookmarks lower (bookmarks m) [],
                             cursor := 0\<rparr>, CmdNil, s)
                 else Inr (m, Quit, s)
             | KeyUp \<Rightarrow>
                 Inr ((if 0 < cursor m then m\<lparr>cursor := cursor m - 1\<rparr> else m), CmdNil, s)
             | KeyDown \<Rightarrow>
                 Inr ((if cursor m < int (length (filtered m)) - 1
                       then m\<lparr>cursor := cursor m + 1\<rparr> else m), CmdNil, s)
             | KeyEnter \<Rightarrow>
                 if 0 < length (filtered m) then
                   (case elem_at (filtered m) (cursor m) of
                      Inl p \<Rightarrow> Inl p
                    | Inr idx \<Rightarrow>
                        (case modify_at (bookmarks m) idx incCount of
                           Inl p \<Rightarrow> Inl p
                         | Inr bs \<Rightarrow>
                             Inr (m\<lparr>bookmarks := bs, selectedPath := Path (bs ! nat idx)\<rparr>,
                                  Quit, fst (saveConfig \<lparr>Bookmarks = bs\<rparr> s))))
                 else Inr (m, CmdNil, s)
             | KeyBackspace \<Rightarrow>
                 if 0 < length (filter_str m) then
                   (let f = take (length (filter_str m) - 1) (filter_str m)
                    in Inr (m\<lparr>filter_str := f,
                              filtered := filterBookmarks lower (bookmarks m) f,
                              cursor := 0\<rparr>, CmdNil, s))
                 else Inr (m, CmdNil, s)
             | KeyRunes \<Rightarrow> UpdateRunes lower m runes s
             | _ \<Rightarrow> Inr (m, CmdNil, s)))"

text \<open>
  The loop of the terminal library as far as the program sees it: the messages are given
  to \<open>Update\<close> one at a time, each on the state the one before returned, until the
  command is \<open>tea.Quit\<close>.
\<close>

fun run :: "(string \<Rightarrow> string) \<Rightarrow> Msg list \<Rightarrow> model \<Rightarrow> fs \<Rightarrow> panic + (model \<times> Cmd \<times> fs)" where
  "run lower [] m s = Inr (m, CmdNil, s)"
| "run lower (msg # msgs) m s =
     (case Update lower m msg s of
        Inl p \<Rightarrow> Inl p
      | Inr (m', c, s') \<Rightarrow> if c = Quit \<or> msgs = [] then Inr (m', c, s') else run lower msgs m' s')"

section \<open>Session states\<close>

text \<open>
  The invariants of the session state: \<open>filtered\<close> is the filter of \<open>bookmarks\<close> by
  \<open>filter\<close>; the cursor is an index of \<open>filtered\<close> when there is one; and the program
  edits only with an empty filter and a record under the cursor (the key \<open>e\<close> starts
  editing under these conditions only, and no key changes them while editing).
\<close>

definition session_inv :: "(string \<Rightarrow> string) \<Rightarrow> model \<Rightarrow> bool" where
  "session_inv lower m =
     (filtered m = filterBookmarks lower (bookmarks m) (filter_str m)
      \<and> (filtered m \<noteq> [] \<longrightarrow> 0 \<le> cursor m \<and> cursor m < int (length (filtered m)))
      \<and> (editing m \<longrightarrow> filter_str m = [] \<and> filtered m \<noteq> []))"

text \<open>The index \<open>idx := m.filtered[m.cursor]\<close> of the record under the cursor.\<close>

definition selected :: "model \<Rightarrow> nat" where
  "selected m = nat (filtered m ! nat (cursor m))"

section \<open>What the library promises\<close>

text \<open>
  A record as it comes back from the document: \<open>json.Marshal\<close> has coerced its strings to
  valid UTF-8.
\<close>

definition coerce :: "Bookmark \<Rightarrow> Bookmark" where
  "coerce b = b\<lparr>Path := toValidUTF8 (Path b), Name := toValidUTF8 (Name b)\<rparr>"

text \<open>
  The contract of \<open>sort.Slice\<close>, from its documentation: given a \<open>less\<close> that is a strict
  weak ordering, the slice is permuted so that no element is less than one before it. The
  documentation adds that the sort is not guaranteed to be stable, so the contract says
  nothing on the order of elements neither of which is less than the other.
\<close>

definition strict_weak_order :: "('a \<Rightarrow> 'a \<Rightarrow> bool) \<Rightarrow> bool" where
  "strict_weak_order lt =
     ((\<forall>a b. lt a b \<longrightarrow> \<not> lt b a) \<and> (\<forall>a b c. \<not> lt a b \<and> \<not> lt b c \<longrightarrow> \<not> lt a c))"

definition sort_Slice_contract :: "sorter \<Rightarrow> bool" where
  "sort_Slice_contract sort_Slice =
     (\<forall>lt xs. strict_weak_order lt \<longrightarrow>
        mset (sort_Slice lt xs) = mset xs
        \<and> sorted_wrt (\<lambda>a b. \<not> lt b a) (sort_Slice lt xs))"

text \<open>
  A sort within the contract: \<open>insertionSort\<close> moves each element, from the second on,
  to the left past every neighbour it is less than (\<open>q\<close> is the part already sorted, last
  element first).
\<close>

fun bubble :: "('a \<Rightarrow> 'a \<Rightarrow> bool) \<Rightarrow> 'a \<Rightarrow> 'a list \<Rightarrow> 'a list" where
  "bubble lt x [] = [x]"
| "bubble lt x (y # q) = (if lt x y then y # bubble lt x q else x # y # q)"

definition insertionSort :: "('a \<Rightarrow> 'a \<Rightarrow> bool) \<Rightarrow> 'a list \<Rightarrow> 'a list" where
  "insertionSort lt xs = rev (foldl (\<lambda>q x. bubble lt x q) [] xs)"

section \<open>The sort of the Go library\<close>

text \<open>
  \<open>sort.Slice\<close> as the Go library implements it (package \<open>sort\<close>, the pattern-defeating
  quicksort of Go 1.19 and later), modelled function by function; it is no part of the
  repository. \<open>lessAt\<close> is \<open>data.Less(i, j)\<close> and \<open>swap\<close> is \<open>data.Swap(i, j)\<close> on the
  slice \<open>d\<close>; indices are Go \<open>int\<close>s. Each loop of the library is a recursive function
  with its termination proof. The loop and the recursion of \<open>pdqsort_func\<close> run on fuel;
  every round and every recursive call works on a shorter part of the slice, so the fuel
  that \<open>sort_Slice_go\<close> gives is enough (lemmas \<open>pdqsort_fuel\<close> and
  \<open>sort_Slice_go_returns\<close>).
\<close>

definition lessAt :: "('a \<Rightarrow> 'a \<Rightarrow> bool) \<Rightarrow> 'a list \<Rightarrow> int \<Rightarrow> int \<Rightarrow> bool" where
  "lessAt lt d i j = lt (d ! nat i) (d ! nat j)"

definition swap :: "'a list \<Rightarrow> int \<Rightarrow> int \<Rightarrow> 'a list" where
  "swap d i j = d[nat i := d ! nat j, nat j := d ! nat i]"

text \<open>\<open>insertionSort_func\<close>: \<open>insertLoop\<close> is its inner loop, from \<open>j\<close> down to \<open>a\<close>.\<close>

function insertLoop :: "('a \<Rightarrow> 'a \<Rightarrow> bool) \<Rightarrow> int \<Rightarrow> int \<Rightarrow> 'a list \<Rightarrow> 'a list" where
  "insertLoop lt a j d =
     (if a < j \<and> lessAt lt d j (j - 1) then insertLoop lt a (j - 1) (swap d j (j - 1)) else d)"
  by pat_completeness auto
termination
  by (relation "measure (\<lambda>(lt, a, j, d). nat (j - a))") auto

declare insertLoop.simps [simp del]

definition insertionSort_func :: "('a \<Rightarrow> 'a \<Rightarrow> bool) \<Rightarrow> 'a list \<Rightarrow> int \<Rightarrow> int \<Rightarrow> 'a list" where
  "insertionSort_func lt d a b = foldl (\<lambda>d i. insertLoop lt a i d) d [a + 1..b - 1]"

text \<open>\<open>siftDown_func\<close> and \<open>heapSort_func\<close>, the fallback when \<open>limit\<close> has run out.\<close>

function siftDown_func :: "('a \<Rightarrow> 'a \<Rightarrow> bool) \<Rightarrow> 'a list \<Rightarrow> nat \<Rightarrow> nat \<Rightarrow> int \<Rightarrow> 'a list" where
  "siftDown_func lt d root hi first =
     (if hi \<le> 2 * root + 1 then d
      else
        (let child = (if 2 * root + 2 < hi
                         \<and> lessAt lt d (first + int (2 * root + 1)) (first + int (2 * root + 2))
                      then 2 * root + 2 else 2 * root + 1)
         in if \<not> lessAt lt d (first + int root) (first + int child) then d
            else siftDown_func lt (swap d (first + int root) (first + int child)) child hi first))"
  by pat_completeness auto
termination
  by (relation "measure (\<lambda>(lt, d, root, hi, first). hi - root)") (auto split: if_splits)

declare siftDown_func.simps [simp del]

definition heapSort_func :: "('a \<Rightarrow> 'a \<Rightarrow> bool) \<Rightarrow> 'a list \<Rightarrow> int \<Rightarrow> int \<Rightarrow> 'a list" where
  "heapSort_func lt d a b =
     (let first = a; lo = 0; hi = nat (b - a);
          d1 = foldl (\<lambda>d i. siftDown_func lt d i hi first) d (rev [0..<(hi - 1) div 2 + 1]);
          d2 = foldl (\<lambda>d i. siftDown_func lt (swap d first (first + int i)) lo i first) d1 (rev [0..<hi])
      in d2)"

text \<open>
  \<open>partition_func\<close>: \<open>scanLess\<close> and \<open>scanNotLess\<close> are its two inner loops, moving \<open>i\<close> up
  and \<open>j\<close> down; \<open>partitionLoop\<close> is the loop around them. The pivot is at \<open>a\<close>.
\<close>

function scanLess :: "('a \<Rightarrow> 'a \<Rightarrow> bool) \<Rightarrow> 'a list \<Rightarrow> int \<Rightarrow> int \<Rightarrow> int \<Rightarrow> int" where
  "scanLess lt d a i j = (if i \<le> j \<and> lessAt lt d i a then scanLess lt d a (i + 1) j else i)"
  by pat_completeness auto
termination
  by (relation "measure (\<lambda>(lt, d, a, i, j). nat (j + 1 - i))") auto

declare scanLess.simps [simp del]

function scanNotLess :: "('a \<Rightarrow> 'a \<Rightarrow> bool) \<Rightarrow> 'a list \<Rightarrow> int \<Rightarrow> int \<Rightarrow> int \<Rightarrow> int" where
  "scanNotLess lt d a i j = (if i \<le> j \<and> \<not> lessAt lt d j a then scanNotLess lt d a i (j - 1) else j)"
  by pat_completeness auto
termination
  by (relation "measure (\<lambda>(lt, d, a, i, j). nat (j + 1 - i))") auto

declare scanNotLess.simps [simp del]

function partitionLoop :: "('a \<Rightarrow> 'a \<Rightarrow> bool) \<Rightarrow> 'a list \<Rightarrow> int \<Rightarrow> int \<Rightarrow> int \<Rightarrow> 'a list \<times> int" where
  "partitionLoop lt d a i j =
     (let i1 = scanLess lt d a i j; j1 = scanNotLess lt d a i1 j
      in if j1 < i1 then (d, j1) else partitionLoop lt (swap d i1 j1) a (i1 + 1) (j1 - 1))"
  by pat_completeness auto

lemma scanLess_ge: "i \<le> scanLess lt d a i j"
proof (induction lt d a i j rule: scanLess.induct)
  case (1 lt d a i j)
  then show ?case by (subst scanLess.simps) auto
qed

lemma scanNotLess_le: "scanNotLess lt d a i j \<le> j"
proof (induction lt d a i j rule: scanNotLess.induct)
  case (1 lt d a i j)
  then show ?case by (subst scanNotLess.simps) auto
qed

termination partitionLoop
proof (relation "measure (\<lambda>(lt, d, a, i, j). nat (j + 1 - i))", goal_cases)
  case 1
  show ?case by simp
next
  case (2 lt d a i j i1 j1)
  then show ?case
    using scanLess_ge [of i lt d a j] scanNotLess_le [of lt d a "scanLess lt d a i j" j] by auto
qed

declare partitionLoop.simps [simp del]

definition partition_func :: "('a \<Rightarrow> 'a \<Rightarrow> bool) \<Rightarrow> 'a list \<Rightarrow> int \<Rightarrow> int \<Rightarrow> int \<Rightarrow> 'a list \<times> int \<times> bool" where
  "partition_func lt d0 a b pivot =
     (let d = swap d0 a pivot;
          i = scanLess lt d a (a + 1) (b - 1);
          j = scanNotLess lt d a i (b - 1)
      in if j < i then (swap d j a, j, True)
         else
           (let (d1, j1) = partitionLoop lt (swap d i j) a (i + 1) (j - 1)
            in (swap d1 j1 a, j1, False)))"

text \<open>\<open>partitionEqual_func\<close>, with its inner loops and the loop around them.\<close>

function scanNotGreater :: "('a \<Rightarrow> 'a \<Rightarrow> bool) \<Rightarrow> 'a list \<Rightarrow> int \<Rightarrow> int \<Rightarrow> int \<Rightarrow> int" where
  "scanNotGreater lt d a i j = (if i \<le> j \<and> \<not> lessAt lt d a i then scanNotGreater lt d a (i + 1) j else i)"
  by pat_completeness auto
termination
  by (relation "measure (\<lambda>(lt, d, a, i, j). nat (j + 1 - i))") auto

declare scanNotGreater.simps [simp del]

function scanGreater :: "('a \<Rightarrow> 'a \<Rightarrow> bool) \<Rightarrow> 'a list \<Rightarrow> int \<Rightarrow> int \<Rightarrow> int \<Rightarrow> int" where
  "scanGreater lt d a i j = (if i \<le> j \<and> lessAt lt d a j then scanGreater lt d a i (j - 1) else j)"
  by pat_completeness auto
termination
  by (relation "measure (\<lambda>(lt, d, a, i, j). nat (j + 1 - i))") auto

declare scanGreater.simps [simp del]

lemma scanNotGreater_ge: "i \<le> scanNotGreater lt d a i j"
proof (induction lt d a i j rule: scanNotGreater.induct)
  case (1 lt d a i j)
  then show ?case by (subst scanNotGreater.simps) auto
qed

lemma scanGreater_le: "scanGreater lt d a i j \<le> j"
proof (induction lt d a i j rule: scanGreater.induct)
  case (1 lt d a i j)
  then show ?case by (subst scanGreater.simps) auto
qed

function partitionEqualLoop :: "('a \<Rightarrow> 'a \<Rightarrow> bool) \<Rightarrow> 'a list \<Rightarrow> int \<Rightarrow> int \<Rightarrow> int \<Rightarrow> 'a list \<times> int" where
  "partitionEqualLoop lt d a i j =
     (let i1 = scanNotGreater lt d a i j; j1 = scanGreater lt d a i1 j
      in if j1 < i1 then (d, i1) else partitionEqualLoop lt (swap d i1 j1) a (i1 + 1) (j1 - 1))"
  by pat_completeness auto
termination
proof (relation "measure (\<lambda>(lt, d, a, i, j). nat (j + 1 - i))", goal_cases)
  case 1
  show ?case by simp
next
  case (2 lt d a i j i1 j1)
  then show ?case
    using scanNotGreater_ge [of i lt d a j] scanGreater_le [of lt d a "scanNotGreater lt d a i j" j] by auto
qed

declare partitionEqualLoop.simps [simp del]

definition partitionEqual_func :: "('a \<Rightarrow> 'a \<Rightarrow> bool) \<Rightarrow> 'a list \<Rightarrow> int \<Rightarrow> int \<Rightarrow> int \<Rightarrow> 'a list \<times> int" where
  "partitionEqual_func lt d a b pivot = partitionEqualLoop lt (swap d a pivot) a (a + 1) (b - 1)"

text \<open>
  \<open>partialInsertionSort_func\<close>: at most 5 rounds (\<open>partialSteps\<close>), each skipping what is in
  order (\<open>skipOrdered\<close>) and, on a slice of 50 elements or more, moving one pair into place
  (\<open>shiftLeft\<close>, \<open>shiftRight\<close>).
\<close>

function skipOrdered :: "('a \<Rightarrow> 'a \<Rightarrow> bool) \<Rightarrow> 'a list \<Rightarrow> int \<Rightarrow> int \<Rightarrow> int" where
  "skipOrdered lt d i b = (if i < b \<and> \<not> lessAt lt d i (i - 1) then skipOrdered lt d (i + 1) b else i)"
  by pat_completeness auto
termination
  by (relation "measure (\<lambda>(lt, d, i, b). nat (b - i))") auto

declare skipOrdered.simps [simp del]

function shiftLeft :: "('a \<Rightarrow> 'a \<Rightarrow> bool) \<Rightarrow> int \<Rightarrow> 'a list \<Rightarrow> 'a list" where
  "shiftLeft lt j d =
     (if 1 \<le> j \<and> lessAt lt d j (j - 1) then shiftLeft lt (j - 1) (swap d j (j - 1)) else d)"
  by pat_completeness auto
termination
  by (relation "measure (\<lambda>(lt, j, d). nat j)") auto

declare shiftLeft.simps [simp del]

function shiftRight :: "('a \<Rightarrow> 'a \<Rightarrow> bool) \<Rightarrow> int \<Rightarrow> int \<Rightarrow> 'a list \<Rightarrow> 'a list" where
  "shiftRight lt j b d =
     (if j < b \<and> lessAt lt d j (j - 1) then shiftRight lt (j + 1) b (swap d j (j - 1)) else d)"
  by pat_completeness auto
termination
  by (relation "measure (\<lambda>(lt, j, b, d). nat (b - j))") auto

declare shiftRight.simps [simp del]

fun partialSteps :: "nat \<Rightarrow> ('a \<Rightarrow> 'a \<Rightarrow> bool) \<Rightarrow> 'a list \<Rightarrow> int \<Rightarrow> int \<Rightarrow> int \<Rightarrow> 'a list \<times> bool" where
  "partialSteps 0 lt d a b i = (d, False)"
| "partialSteps (Suc n) lt d a b i0 =
     (let i = skipOrdered lt d i0 b
      in if i = b then (d, True)
         else if b - a < 50 then (d, False)
         else
           (let d1 = swap d i (i - 1);
                d2 = (if 2 \<le> i - a then shiftLeft lt (i - 1) d1 else d1);
                d3 = (if 2 \<le> b - i then shiftRight lt (i + 1) b d2 else d2)
            in partialSteps n lt d3 a b i))"

definition partialInsertionSort_func :: "('a \<Rightarrow> 'a \<Rightarrow> bool) \<Rightarrow> 'a list \<Rightarrow> int \<Rightarrow> int \<Rightarrow> 'a list \<times> bool" where
  "partialInsertionSort_func lt d a b = partialSteps 5 lt d a b (a + 1)"

text \<open>
  \<open>breakPatterns_func\<close> swaps three elements near the middle with elements at
  pseudo-random indices; \<open>bits_Len\<close> is \<open>bits.Len\<close> and \<open>xorshift_Next\<close> the generator.
\<close>

fun bits_Len :: "nat \<Rightarrow> nat" where
  "bits_Len n = (if n = 0 then 0 else Suc (bits_Len (n div 2)))"

declare bits_Len.simps [simp del]

definition xorshift_Next :: "64 word \<Rightarrow> 64 word" where
  "xorshift_Next r0 =
     (let r1 = r0 XOR push_bit 13 r0; r2 = r1 XOR drop_bit 7 r1 in r2 XOR push_bit 17 r2)"

definition nextPowerOfTwo :: "int \<Rightarrow> 64 word" where
  "nextPowerOfTwo n = push_bit (bits_Len (nat n)) 1"

definition breakStep :: "int \<Rightarrow> int \<Rightarrow> int \<Rightarrow> 64 word \<Rightarrow> 'a list \<times> 64 word \<Rightarrow> int \<Rightarrow> 'a list \<times> 64 word" where
  "breakStep a n idx modulus st i =
     (let random = xorshift_Next (snd st);
          other0 = uint (random AND (modulus - 1));
          other = (if n \<le> other0 then other0 - n else other0)
      in (swap (fst st) (idx + i) (a + other), random))"

definition breakPatterns_func :: "'a list \<Rightarrow> int \<Rightarrow> int \<Rightarrow> 'a list" where
  "breakPatterns_func d a b =
     (let n = b - a
      in if 8 \<le> n
         then fst (foldl (breakStep a n (a + (n div 4) * 2 - 1) (nextPowerOfTwo n))
                     (d, word_of_int n) [0, 1, 2])
         else d)"

text \<open>\<open>choosePivot_func\<close>: the median of three elements, or of three such medians.\<close>

datatype sortedHint = unknownHint | increasingHint | decreasingHint

definition order2_func :: "('a \<Rightarrow> 'a \<Rightarrow> bool) \<Rightarrow> 'a list \<Rightarrow> int \<Rightarrow> int \<Rightarrow> nat \<Rightarrow> int \<times> int \<times> nat" where
  "order2_func lt d a b swaps = (if lessAt lt d b a then (b, a, swaps + 1) else (a, b, swaps))"

definition median_func :: "('a \<Rightarrow> 'a \<Rightarrow> bool) \<Rightarrow> 'a list \<Rightarrow> int \<Rightarrow> int \<Rightarrow> int \<Rightarrow> nat \<Rightarrow> int \<times> nat" where
  "median_func lt d a0 b0 c0 swaps0 =
     (let (a1, b1, swaps1) = order2_func lt d a0 b0 swaps0;
          (b2, c2, swaps2) = order2_func lt d b1 c0 swaps1;
          (a3, b3, swaps3) = order2_func lt d a1 b2 swaps2
      in (b3, swaps3))"

definition medianAdjacent_func :: "('a \<Rightarrow> 'a \<Rightarrow> bool) \<Rightarrow> 'a list \<Rightarrow> int \<Rightarrow> nat \<Rightarrow> int \<times> nat" where
  "medianAdjacent_func lt d a swaps = median_func lt d (a - 1) a (a + 1) swaps"

definition choosePivot_func :: "('a \<Rightarrow> 'a \<Rightarrow> bool) \<Rightarrow> 'a list \<Rightarrow> int \<Rightarrow> int \<Rightarrow> int \<times> sortedHint" where
  "choosePivot_func lt d a b =
     (let l = b - a;
          i0 = a + l div 4 * 1; j0 = a + l div 4 * 2; k0 = a + l div 4 * 3;
          (j, swaps) =
            (if 8 \<le> l then
               (if 50 \<le> l then
                  (let (i1, s1) = medianAdjacent_func lt d i0 0;
                       (j1, s2) = medianAdjacent_func lt d j0 s1;
                       (k1, s3) = medianAdjacent_func lt d k0 s2
                   in median_func lt d i1 j1 k1 s3)
                else median_func lt d i0 j0 k0 0)
             else (j0, 0))
      in if swaps = 0 then (j, increasingHint)
         else if swaps = 12 then (j, decreasingHint)
         else (j, unknownHint))"

function reverseLoop :: "int \<Rightarrow> int \<Rightarrow> 'a list \<Rightarrow> 'a list" where
  "reverseLoop i j d = (if i < j then reverseLoop (i + 1) (j - 1) (swap d i j) else d)"
  by pat_completeness auto
termination
  by (relation "measure (\<lambda>(i, j, d). nat (j - i))") auto

declare reverseLoop.simps [simp del]

definition reverseRange_func :: "'a list \<Rightarrow> int \<Rightarrow> int \<Rightarrow> 'a list" where
  "reverseRange_func d a b = reverseLoop a (b - 1) d"

text \<open>
  \<open>pdqsort_func\<close>. \<open>roundHead\<close> is one round of its loop up to the partition: it gives the
  slice, the pivot, the new \<open>limit\<close> and whether the slice is sorted already. The variables
  \<open>wasBalanced\<close> and \<open>wasPartitioned\<close> of the loop are arguments; a recursive call of the
  library starts with both true.
\<close>

definition roundHead ::
  "('a \<Rightarrow> 'a \<Rightarrow> bool) \<Rightarrow> 'a list \<Rightarrow> int \<Rightarrow> int \<Rightarrow> int \<Rightarrow> bool \<Rightarrow> bool
     \<Rightarrow> 'a list \<times> int \<times> int \<times> bool" where
  "roundHead lt d a b limit wasBalanced wasPartitioned =
     (let d1 = (if \<not> wasBalanced then breakPatterns_func d a b else d);
          limit1 = (if \<not> wasBalanced then limit - 1 else limit);
          (pivot0, hint0) = choosePivot_func lt d1 a b;
          d2 = (if hint0 = decreasingHint then reverseRange_func d1 a b else d1);
          pivot = (if hint0 = decreasingHint then (b - 1) - (pivot0 - a) else pivot0);
          hint = (if hint0 = decreasingHint then increasingHint else hint0);
          (d3, finished) =
            (if wasBalanced \<and> wasPartitioned \<and> hint = increasingHint
             then partialInsertionSort_func lt d2 a b else (d2, False))
      in (d3, pivot, limit1, finished))"

fun pdqsort_func ::
  "nat \<Rightarrow> ('a \<Rightarrow> 'a \<Rightarrow> bool) \<Rightarrow> 'a list \<Rightarrow> int \<Rightarrow> int \<Rightarrow> int \<Rightarrow> bool \<Rightarrow> bool \<Rightarrow> 'a list option" where
  "pdqsort_func 0 lt d a b limit wasBalanced wasPartitioned = None"
| "pdqsort_func (Suc fuel) lt d a b limit wasBalanced wasPartitioned =
     (if b - a \<le> 12 then Some (insertionSort_func lt d a b)
      else if limit = 0 then Some (heapSort_func lt d a b)
      else
        (case roundHead lt d a b limit wasBalanced wasPartitioned of
           (d3, pivot, limit1, finished) \<Rightarrow>
             if finished then Some d3
             else if 0 < a \<and> \<not> lessAt lt d3 (a - 1) pivot then
               (case partitionEqual_func lt d3 a b pivot of
                  (d4, mid) \<Rightarrow> pdqsort_func fuel lt d4 mid b limit1 wasBalanced wasPartitioned)
             else
               (case partition_func lt d3 a b pivot of
                  (d4, mid, alreadyPartitioned) \<Rightarrow>
                    if mid - a < b - mid then
                      (case pdqsort_func fuel lt d4 a mid limit1 True True of
                         None \<Rightarrow> None
                       | Some d5 \<Rightarrow>
                           pdqsort_func fuel lt d5 (mid + 1) b limit1
                             ((b - a) div 8 \<le> mid - a) alreadyPartitioned)
                    else
                      (case pdqsort_func fuel lt d4 (mid + 1) b limit1 True True of
                         None \<Rightarrow> None
                       | Some d5 \<Rightarrow>
                           pdqsort_func fuel lt d5 a mid limit1
                             ((b - a) div 8 \<le> b - mid) alreadyPartitioned))))"

text \<open>\<open>sort.Slice(x, less)\<close>. The case \<open>None\<close> does not occur (\<open>sort_Slice_go_returns\<close>).\<close>

definition sort_Slice_go :: "('a \<Rightarrow> 'a \<Rightarrow> bool) \<Rightarrow> 'a list \<Rightarrow> 'a list" where
  "sort_Slice_go lt x =
     (case pdqsort_func (length x + 1) lt x 0 (int (length x)) (int (bits_Len (length x))) True True of
        Some d \<Rightarrow> d
      | None \<Rightarrow> x)"

section \<open>Values for concrete runs\<close>

definition work :: Bookmark where
  "work = \<lparr>Path = ''/home/u/work'', Name = ''work'', Count = 5\<rparr>"

definition play :: Bookmark where
  "play = \<lparr>Path = ''/tmp/play'', Name = [], Count = 0\<rparr>"

definition docs :: Bookmark where
  "docs = \<lparr>Path = ''/home/u/docs'', Name = [], Count = 2\<rparr>"

text \<open>A browsing state over the whole list, with the cursor at \<open>c\<close>.\<close>

definition browsing :: "Bookmark list \<Rightarrow> int \<Rightarrow> model" where
  "browsing bs c =
     \<lparr>bookmarks = bs, filtered = map int [0..<length bs], cursor = c, filter_str = [],
      editing = False, editValue = [], selectedPath = []\<rparr>"

text \<open>A file system with no document yet, in which nothing fails.\<close>

definition no_file :: fs where
  "no_file = \<lparr>document = None, read_fails = False, mkdir_fails = False, write_fails = False\<rparr>"


text \<open>The document that \<open>saveConfig\<close> writes for a list of JSON records.\<close>

definition stored :: "json list \<Rightarrow> fs" where
  "stored records = no_file\<lparr>document := Some (JSON (JObject [(''bookmarks'', JArray records)]))\<rparr>"



section \<open>Filtering\<close>

lemma Contains_Nil [simp]: "Contains s [] = True"
  by (cases s) simp_all

lemma Contains_iff_sublist: "Contains s sub \<longleftrightarrow> sublist sub s"
  by (induction s) (auto simp: sublist_Cons_right)

lemma filterLoop_eq:
  "filterLoop lower f i bs =
     map (\<lambda>k. i + int k)
       (filter (\<lambda>k. Contains (lower (Name (bs ! k))) f \<or> Contains (lower (Path (bs ! k))) f)
         [0..<length bs])"
proof (induction bs arbitrary: i)
  case Nil
  show ?case by simp
next
  case (Cons b bs)
  have upt: "[0..<length (b # bs)] = 0 # map Suc [0..<length bs]"
    by (simp add: upt_conv_Cons map_Suc_upt del: upt_Suc)
  show ?case
    unfolding upt by (simp add: Cons.IH filter_map o_def)
qed

lemma filterLoop_range: "j \<in> set (filterLoop lower f i bs) \<Longrightarrow> i \<le> j \<and> j < i + int (length bs)"
  by (auto simp: filterLoop_eq)

lemma filterBookmarks_range:
  "j \<in> set (filterBookmarks lower bs f) \<Longrightarrow> 0 \<le> j \<and> j < int (length bs)"
  using filterLoop_range [of j lower "lower f" 0 bs]
  by (auto simp: filterBookmarks_def split: if_splits)

lemma filterBookmarks_empty_filter [simp]:
  "filterBookmarks lower bs [] = map int [0..<length bs]"
  by (simp add: filterBookmarks_def)

lemma filterLoop_cong:
  assumes "map Name bs' = map Name bs" and "map Path bs' = map Path bs"
  shows "filterLoop lower f i bs' = filterLoop lower f i bs"
proof -
  have "length bs' = length bs"
    using assms(1) by (rule map_eq_imp_length_eq)
  then show ?thesis
    using assms
  proof (induction bs' bs arbitrary: i rule: list_induct2)
    case Nil
    show ?case by simp
  next
    case (Cons x xs y ys)
    then show ?case by simp
  qed
qed

lemma filterBookmarks_cong:
  "map Name bs' = map Name bs \<Longrightarrow> map Path bs' = map Path bs \<Longrightarrow>
   filterBookmarks lower bs' f = filterBookmarks lower bs f"
  using filterLoop_cong [of bs' bs lower "lower f" 0] map_eq_imp_length_eq [of Name bs' Name bs]
  by (simp add: filterBookmarks_def)

lemma filterBookmarks_incCount:
  "filterBookmarks lower (bs[i := incCount (bs ! i)]) f = filterBookmarks lower bs f"
proof (rule filterBookmarks_cong; rule nth_equalityI)
  fix k assume "k < length (map Name (bs[i := incCount (bs ! i)]))"
  then show "map Name (bs[i := incCount (bs ! i)]) ! k = map Name bs ! k"
    by (cases "k = i") (simp_all add: incCount_def)
next
  fix k assume "k < length (map Path (bs[i := incCount (bs ! i)]))"
  then show "map Path (bs[i := incCount (bs ! i)]) ! k = map Path bs ! k"
    by (cases "k = i") (simp_all add: incCount_def)
qed simp_all

lemma inv_selected:
  assumes "session_inv lower m" "filtered m \<noteq> []"
  shows "0 \<le> cursor m" "cursor m < int (length (filtered m))"
    "0 \<le> filtered m ! nat (cursor m)" "filtered m ! nat (cursor m) < int (length (bookmarks m))"
proof -
  show c: "0 \<le> cursor m" "cursor m < int (length (filtered m))"
    using assms by (auto simp: session_inv_def)
  then have "filtered m ! nat (cursor m) \<in> set (filtered m)" by simp
  then have "filtered m ! nat (cursor m) \<in> set (filterBookmarks lower (bookmarks m) (filter_str m))"
    using assms by (simp add: session_inv_def)
  then show "0 \<le> filtered m ! nat (cursor m)" "filtered m ! nat (cursor m) < int (length (bookmarks m))"
    using filterBookmarks_range by blast+
qed


lemma session_invI:
  assumes "filtered m = filterBookmarks lower (bookmarks m) (filter_str m)"
    and "filtered m \<noteq> [] \<Longrightarrow> 0 \<le> cursor m \<and> cursor m < int (length (filtered m))"
    and "editing m \<Longrightarrow> filter_str m = [] \<and> filtered m \<noteq> []"
  shows "session_inv lower m"
  using assms unfolding session_inv_def by blast

lemma session_inv_filtered:
  "session_inv lower m \<Longrightarrow> filtered m = filterBookmarks lower (bookmarks m) (filter_str m)"
  unfolding session_inv_def by blast

lemma session_inv_cursor:
  "session_inv lower m \<Longrightarrow> filtered m \<noteq> [] \<Longrightarrow> 0 \<le> cursor m \<and> cursor m < int (length (filtered m))"
  unfolding session_inv_def by blast

lemma session_inv_editing:
  "session_inv lower m \<Longrightarrow> editing m \<Longrightarrow> filter_str m = [] \<and> filtered m \<noteq> []"
  unfolding session_inv_def by blast

lemma session_inv_cong:
  assumes "session_inv lower m"
    and "bookmarks m' = bookmarks m" "filtered m' = filtered m" "cursor m' = cursor m"
    and "filter_str m' = filter_str m" "editing m' \<longrightarrow> editing m"
  shows "session_inv lower m'"
  using assms unfolding session_inv_def by metis

lemma UpdateEditing_inv:
  assumes "session_inv lower m" "editing m"
  shows "\<exists>m' c s'. UpdateEditing m t runes s = Inr (m', c, s') \<and> session_inv lower m'"
proof -
  have f: "filter_str m = []" "filtered m \<noteq> []"
    using session_inv_editing [OF assms] by simp_all
  note sel = inv_selected [OF assms(1) f(2)]
  have fl: "filtered m = map int [0..<length (bookmarks m)]"
    using session_inv_filtered [OF assms(1)] f by simp
  have keep: "session_inv lower (m\<lparr>editValue := v\<rparr>)" for v
    by (rule session_inv_cong [OF assms(1)]) simp_all
  have leave: "session_inv lower (m\<lparr>editing := False, editValue := []\<rparr>)"
    by (rule session_inv_cong [OF assms(1)]) simp_all
  have enter: "session_inv lower (m\<lparr>bookmarks := (bookmarks m)[i := b], editing := False, editValue := []\<rparr>)" for i b
    using session_inv_cursor [OF assms(1)] f fl by (intro session_invI) simp_all
  show ?thesis
  proof (cases t)
    case KeyEnter
    have "UpdateEditing m KeyEnter runes s =
            Inr (m\<lparr>bookmarks := (bookmarks m)[nat (filtered m ! nat (cursor m)) := setName (editValue m) (bookmarks m ! nat (filtered m ! nat (cursor m)))],
                    editing := False, editValue := []\<rparr>, CmdNil,
                 fst (saveConfig \<lparr>Bookmarks = (bookmarks m)[nat (filtered m ! nat (cursor m)) := setName (editValue m) (bookmarks m ! nat (filtered m ! nat (cursor m)))]\<rparr> s))"
      using f sel by (simp add: UpdateEditing_def elem_at_def modify_at_def)
    then show ?thesis using enter KeyEnter by blast
  next
    case KeyBackspace
    then show ?thesis using keep assms(1) by (cases "editValue m = []") (simp_all add: UpdateEditing_def)
  next
    case KeyEsc
    then show ?thesis using leave by (simp add: UpdateEditing_def)
  next
    case KeySpace
    then show ?thesis using keep by (simp add: UpdateEditing_def)
  next
    case KeyRunes
    then show ?thesis using keep by (simp add: UpdateEditing_def)
  qed (use assms(1) in \<open>simp_all add: UpdateEditing_def\<close>)
qed


lemma refilter_inv:
  assumes "\<not> editing m"
  shows "session_inv lower (m\<lparr>filter_str := f, filtered := filterBookmarks lower (bookmarks m) f, cursor := 0\<rparr>)"
  using assms by (intro session_invI) simp_all

lemma addToFilter_inv: "\<not> editing m \<Longrightarrow> session_inv lower (addToFilter lower m char)"
  unfolding addToFilter_def by (rule refilter_inv)

lemma cursor_up_inv:
  assumes "session_inv lower m"
  shows "session_inv lower (if 0 < cursor m then m\<lparr>cursor := cursor m - 1\<rparr> else m)"
proof (cases "0 < cursor m")
  case True
  show ?thesis
    using True session_inv_filtered [OF assms] session_inv_cursor [OF assms] session_inv_editing [OF assms]
    by (intro session_invI) auto
qed (use assms in simp)

lemma cursor_down_inv:
  assumes "session_inv lower m"
  shows "session_inv lower (if cursor m < int (length (filtered m)) - 1 then m\<lparr>cursor := cursor m + 1\<rparr> else m)"
proof (cases "cursor m < int (length (filtered m)) - 1")
  case True
  show ?thesis
    using True session_inv_filtered [OF assms] session_inv_cursor [OF assms] session_inv_editing [OF assms]
    by (intro session_invI) auto
qed (use assms in simp)

lemma delete_inv:
  assumes "session_inv lower m" "\<not> editing m" "filter_str m = []" "filtered m \<noteq> []"
  defines "bs \<equiv> take (nat (cursor m)) (bookmarks m) @ drop (nat (cursor m) + 1) (bookmarks m)"
  shows "filtered m ! nat (cursor m) = cursor m"
    and "session_inv lower
           (m\<lparr>bookmarks := bs, filtered := filterBookmarks lower bs (filter_str m),
              cursor := (if int (length (filterBookmarks lower bs (filter_str m))) \<le> cursor m \<and> 0 < cursor m
                         then cursor m - 1 else cursor m)\<rparr>)"
proof -
  have fl: "filtered m = map int [0..<length (bookmarks m)]"
    using session_inv_filtered [OF assms(1)] assms(3) by simp
  have c: "0 \<le> cursor m" "cursor m < int (length (bookmarks m))"
    using session_inv_cursor [OF assms(1) assms(4)] fl by simp_all
  show "filtered m ! nat (cursor m) = cursor m"
    using c by (simp add: fl)
  have len: "length bs = length (bookmarks m) - 1"
    using c by (simp add: bs_def)
  show "session_inv lower
           (m\<lparr>bookmarks := bs, filtered := filterBookmarks lower bs (filter_str m),
              cursor := (if int (length (filterBookmarks lower bs (filter_str m))) \<le> cursor m \<and> 0 < cursor m
                         then cursor m - 1 else cursor m)\<rparr>)"
    using c len assms(2,3) by (intro session_invI) auto
qed

lemma UpdateRunes_inv:
  assumes "session_inv lower m" "\<not> editing m"
  shows "\<exists>m' c s'. UpdateRunes lower m char s = Inr (m', c, s') \<and> session_inv lower m'"
proof (cases "filter_str m = []")
  case False
  then show ?thesis using addToFilter_inv [OF assms(2)] by (simp add: UpdateRunes_def)
next
  case True
  note empty = True
  consider "char = ''q''" | "char = ''e''" | "char = ''d''" | "char = ''j''" | "char = ''k''"
    | "char \<notin> {''q'', ''e'', ''d'', ''j'', ''k''}" by blast
  then show ?thesis
  proof cases
    case 1
    then show ?thesis using assms(1) empty by (simp add: UpdateRunes_def)
  next
    case 2
    show ?thesis
    proof (cases "filtered m = []")
      case True
      then show ?thesis using assms(1) empty 2 by (simp add: UpdateRunes_def)
    next
      case False
      note sel = inv_selected [OF assms(1) False]
      have "session_inv lower (m\<lparr>editing := True, editValue := v\<rparr>)" for v
        using session_inv_filtered [OF assms(1)] session_inv_cursor [OF assms(1)] empty False
        by (intro session_invI) simp_all
      then show ?thesis using empty 2 False sel by (simp add: UpdateRunes_def elem_at_def)
    qed
  next
    case 3
    show ?thesis
    proof (cases "filtered m = []")
      case True
      then show ?thesis using assms(1) empty 3 by (simp add: UpdateRunes_def)
    next
      case False
      note sel = inv_selected [OF assms(1) False]
      note del = delete_inv [OF assms empty False]
      show ?thesis using empty 3 False sel del by (simp add: UpdateRunes_def elem_at_def remove_at_def Let_def)
    qed
  next
    case 4
    then show ?thesis using cursor_down_inv [OF assms(1)] empty by (simp add: UpdateRunes_def)
  next
    case 5
    then show ?thesis using cursor_up_inv [OF assms(1)] empty by (simp add: UpdateRunes_def)
  next
    case 6
    then show ?thesis using addToFilter_inv [OF assms(2)] empty by (simp add: UpdateRunes_def)
  qed
qed

lemma Update_inv:
  assumes "session_inv lower m"
  shows "\<exists>m' c s'. Update lower m msg s = Inr (m', c, s') \<and> session_inv lower m'"
proof (cases msg)
  case OtherMsg
  then show ?thesis using assms by (simp add: Update_def)
next
  case (KeyMsg t runes)
  show ?thesis
  proof (cases "editing m")
    case True
    then show ?thesis using UpdateEditing_inv [OF assms True] KeyMsg by (simp add: Update_def)
  next
    case False
    note browsing = False
    show ?thesis
    proof (cases t)
      case KeyRunes
      then show ?thesis using UpdateRunes_inv [OF assms browsing] KeyMsg browsing by (simp add: Update_def)
    next
      case KeyEnter
      show ?thesis
      proof (cases "filtered m = []")
        case True
        then show ?thesis using assms browsing KeyMsg KeyEnter by (simp add: Update_def)
      next
        case False
        note sel = inv_selected [OF assms False]
        have "session_inv lower (m\<lparr>bookmarks := (bookmarks m)[i := incCount (bookmarks m ! i)], selectedPath := p\<rparr>)" for i p
          using session_inv_filtered [OF assms] session_inv_cursor [OF assms] browsing
          by (intro session_invI) (simp_all add: filterBookmarks_incCount)
        then show ?thesis using sel False browsing KeyMsg KeyEnter
          by (simp add: Update_def elem_at_def modify_at_def)
      qed
    next
      case KeyEsc
      then show ?thesis using refilter_inv [OF browsing, of lower "[]"] assms browsing KeyMsg
        by (cases "filter_str m = []") (simp_all add: Update_def)
    next
      case KeyBackspace
      then show ?thesis using refilter_inv [OF browsing] assms browsing KeyMsg
        by (cases "filter_str m = []") (simp_all add: Update_def Let_def)
    next
      case KeyUp
      then show ?thesis using cursor_up_inv [OF assms] browsing KeyMsg by (simp add: Update_def)
    next
      case KeyDown
      then show ?thesis using cursor_down_inv [OF assms] browsing KeyMsg by (simp add: Update_def)
    qed (use assms browsing KeyMsg in \<open>simp_all add: Update_def\<close>)
  qed
qed

lemma run_inv:
  assumes "session_inv lower m"
  shows "\<exists>m' c s'. run lower msgs m s = Inr (m', c, s') \<and> session_inv lower m'"
  using assms
proof (induction msgs arbitrary: m s)
  case Nil
  then show ?case by simp
next
  case (Cons msg msgs)
  obtain m1 c1 s1 where u: "Update lower m msg s = Inr (m1, c1, s1)" and inv: "session_inv lower m1"
    using Update_inv [OF Cons.prems] by blast
  show ?case
  proof (cases "c1 = Quit \<or> msgs = []")
    case True
    then show ?thesis using u inv by auto
  next
    case False
    then show ?thesis using u Cons.IH [OF inv, of s1] by auto
  qed
qed

lemma sint_inc:
  fixes x :: "64 word"
  assumes "sint x \<noteq> 2 ^ 63 - 1"
  shows "sint (x + 1) = sint x + 1"
proof -
  have "sint x < 2 ^ 63" using sint_lt [of x] by simp
  moreover have "- (2 ^ 63) \<le> sint x" using sint_ge [of x] by simp
  ultimately show ?thesis
    using assms by (simp add: sint_word_ariths signed_take_bit_int_eq_self)
qed

lemma selected_in_range:
  assumes "session_inv lower m" "filtered m \<noteq> []"
  shows "selected m < length (bookmarks m)" "int (selected m) = filtered m ! nat (cursor m)"
  using inv_selected [OF assms] by (simp_all add: selected_def)

section \<open>Selecting a bookmark\<close>

text \<open>
  C1: in a session state that is browsing with a non-empty \<open>filtered\<close>, the confirm key
  adds one to the \<open>Count\<close> of the record under the cursor (in the arithmetic of a Go
  \<open>int\<close>; read as an integer the count has grown by one unless it was the largest
  \<open>int\<close>), saves the whole updated list, sets the result to the path of that record and
  quits. The path and the name of that record and every other record are as before.
\<close>

theorem confirm_increments_and_reports:
  assumes "session_inv lower m" and "\<not> editing m" and "filtered m \<noteq> []"
  shows "\<exists>bs. Update lower m (KeyMsg KeyEnter runes) s
               = Inr (m\<lparr>bookmarks := bs, selectedPath := Path (bookmarks m ! selected m)\<rparr>, Quit,
                      fst (saveConfig \<lparr>Bookmarks = bs\<rparr> s))
          \<and> length bs = length (bookmarks m)
          \<and> bs ! selected m = (bookmarks m ! selected m)\<lparr>Count := Count (bookmarks m ! selected m) + 1\<rparr>
          \<and> (\<forall>j<length bs. j \<noteq> selected m \<longrightarrow> bs ! j = bookmarks m ! j)
          \<and> (sint (Count (bookmarks m ! selected m)) \<noteq> 2 ^ 63 - 1 \<longrightarrow>
               sint (Count (bs ! selected m)) = sint (Count (bookmarks m ! selected m)) + 1)"
proof -
  note sel = inv_selected [OF assms(1,3)]
  note rng = selected_in_range [OF assms(1,3)]
  let ?bs = "(bookmarks m)[selected m := incCount (bookmarks m ! selected m)]"
  have upd: "Update lower m (KeyMsg KeyEnter runes) s
               = Inr (m\<lparr>bookmarks := ?bs, selectedPath := Path (bookmarks m ! selected m)\<rparr>, Quit,
                      fst (saveConfig \<lparr>Bookmarks = ?bs\<rparr> s))"
    using assms(2,3) sel rng(1)
    by (simp add: Update_def elem_at_def modify_at_def selected_def incCount_def)
  have "length ?bs = length (bookmarks m)" by simp
  moreover have at: "?bs ! selected m = (bookmarks m ! selected m)\<lparr>Count := Count (bookmarks m ! selected m) + 1\<rparr>"
    using rng(1) by (simp add: incCount_def)
  moreover have "\<forall>j<length ?bs. j \<noteq> selected m \<longrightarrow> ?bs ! j = bookmarks m ! j"
    by simp
  moreover have "sint (Count (bookmarks m ! selected m)) \<noteq> 2 ^ 63 - 1 \<longrightarrow>
               sint (Count (?bs ! selected m)) = sint (Count (bookmarks m ! selected m)) + 1"
    using sint_inc [of "Count (bookmarks m ! selected m)"] by (simp add: at)
  ultimately show ?thesis using upd by blast
qed

theorem confirm_increments_and_reports_witness:
  "session_inv lowerASCII (browsing [play, work] 1) \<and> \<not> editing (browsing [play, work] 1)
   \<and> filtered (browsing [play, work] 1) \<noteq> []
   \<and> Update lowerASCII (browsing [play, work] 1) (KeyMsg KeyEnter []) no_file
       = Inr ((browsing [play, work\<lparr>Count := 6\<rparr>] 1)\<lparr>selectedPath := ''/home/u/work''\<rparr>, Quit,
              stored [JObject [(''path'', JString ''/tmp/play''), (''count'', JInt 0)],
                      JObject [(''path'', JString ''/home/u/work''), (''name'', JString ''work''),
                               (''count'', JInt 6)]])"
proof -
  have inv: "session_inv lowerASCII (browsing [play, work] 1)"
    by (simp add: session_inv_def browsing_def)
  have br: "\<not> editing (browsing [play, work] 1)" "filtered (browsing [play, work] 1) \<noteq> []"
    by (simp_all add: browsing_def)
  have "Update lowerASCII (browsing [play, work] 1) (KeyMsg KeyEnter []) no_file
       = Inr ((browsing [play, work\<lparr>Count := 6\<rparr>] 1)\<lparr>selectedPath := ''/home/u/work''\<rparr>, Quit,
              stored [JObject [(''path'', JString ''/tmp/play''), (''count'', JInt 0)],
                      JObject [(''path'', JString ''/home/u/work''), (''name'', JString ''work''),
                               (''count'', JInt 6)]])"
    using confirm_increments_and_reports [OF inv br, of "[]" no_file]
    by (simp add: Update_def elem_at_def modify_at_def incCount_def browsing_def work_def play_def
        saveConfig_def os_MkdirAll_def os_WriteFile_def json_MarshalIndent_def marshalBookmark_def
        no_file_def stored_def)
  then show ?thesis using inv br by simp
qed

section \<open>Confirm with nothing to select\<close>

text \<open>
  C10: while browsing with an empty \<open>filtered\<close>, the confirm key changes nothing: the state
  is returned as it was, the command is \<open>nil\<close> (the session goes on) and the file system is
  untouched (no save).
\<close>

theorem confirm_on_empty_view_is_noop:
  assumes "\<not> editing m" and "filtered m = []"
  shows "Update lower m (KeyMsg KeyEnter runes) s = Inr (m, CmdNil, s)"
  using assms by (simp add: Update_def)

theorem confirm_on_empty_view_is_noop_witness:
  "\<not> editing (browsing [] 0) \<and> filtered (browsing [] 0) = []
   \<and> Update lowerASCII (browsing [] 0) (KeyMsg KeyEnter []) no_file = Inr (browsing [] 0, CmdNil, no_file)"
  using confirm_on_empty_view_is_noop [of "browsing [] 0" lowerASCII "[]" no_file]
  by (simp add: browsing_def)

section \<open>The filtered view\<close>

lemma filterBookmarks_spec:
  assumes "lower [] = []"
  shows "filterBookmarks lower bs f =
           map int (filter (\<lambda>i. sublist (lower f) (lower (Name (bs ! i)))
                              \<or> sublist (lower f) (lower (Path (bs ! i)))) [0..<length bs])"
proof (cases "f = []")
  case True
  then show ?thesis using assms by simp
next
  case False
  then show ?thesis
    by (simp add: filterBookmarks_def filterLoop_eq Contains_iff_sublist)
qed

lemma filterBookmarks_spec_nonempty:
  assumes "f \<noteq> []"
  shows "filterBookmarks lower bs f =
           map int (filter (\<lambda>i. sublist (lower f) (lower (Name (bs ! i)))
                              \<or> sublist (lower f) (lower (Path (bs ! i)))) [0..<length bs])"
  using assms by (simp add: filterBookmarks_def filterLoop_eq Contains_iff_sublist)

lemma lowerASCII_Nil [simp]: "lowerASCII [] = []"
  by (simp add: lowerASCII_def)

text \<open>
  C2: after every key event on a session state, \<open>filtered\<close> is the list of the indices of
  \<open>bookmarks\<close>, in increasing order, whose lower-cased name or lower-cased path has the
  lower-cased filter as a substring (\<open>sublist\<close>: a contiguous part), and it is all the
  indices when the filter is empty. No key event panics on a session state. The
  lower-casing function is any function that maps the empty string to itself.
\<close>

theorem filtered_is_filter_after_every_key:
  assumes "session_inv lower m" and "lower [] = []"
  shows "\<exists>m' c s'. Update lower m (KeyMsg t runes) s = Inr (m', c, s')
          \<and> filtered m' =
              map int (filter (\<lambda>i. sublist (lower (filter_str m')) (lower (Name (bookmarks m' ! i)))
                                 \<or> sublist (lower (filter_str m')) (lower (Path (bookmarks m' ! i))))
                        [0..<length (bookmarks m')])
          \<and> (filter_str m' = [] \<longrightarrow> filtered m' = map int [0..<length (bookmarks m')])"
proof -
  obtain m' c s' where u: "Update lower m (KeyMsg t runes) s = Inr (m', c, s')"
    and inv: "session_inv lower m'"
    using Update_inv [OF assms(1)] by blast
  have fl: "filtered m' = filterBookmarks lower (bookmarks m') (filter_str m')"
    using inv by (rule session_inv_filtered)
  have "filtered m' =
          map int (filter (\<lambda>i. sublist (lower (filter_str m')) (lower (Name (bookmarks m' ! i)))
                             \<or> sublist (lower (filter_str m')) (lower (Path (bookmarks m' ! i))))
                    [0..<length (bookmarks m')])"
    unfolding fl using assms(2) by (rule filterBookmarks_spec [of lower])
  moreover have "filter_str m' = [] \<longrightarrow> filtered m' = map int [0..<length (bookmarks m')]"
    using fl by simp
  ultimately show ?thesis using u by blast
qed

theorem filtered_is_filter_after_every_key_witness:
  "session_inv lowerASCII (browsing [work, play] 0) \<and> lowerASCII [] = []
   \<and> Update lowerASCII (browsing [work, play] 0) (KeyMsg KeyRunes ''W'') no_file
        = Inr ((browsing [work, play] 0)\<lparr>filter_str := ''W'', filtered := [0]\<rparr>, CmdNil, no_file)
   \<and> Update lowerASCII (browsing [work, play] 0) (KeyMsg KeyDown []) no_file
        = Inr (browsing [work, play] 1, CmdNil, no_file)
   \<and> filter_str (browsing [work, play] 1) = [] \<and> filtered (browsing [work, play] 1) = [0, 1]"
proof -
  have inv: "session_inv lowerASCII (browsing [work, play] 0)"
    by (simp add: session_inv_def browsing_def)
  have 1: "Update lowerASCII (browsing [work, play] 0) (KeyMsg KeyRunes ''W'') no_file
        = Inr ((browsing [work, play] 0)\<lparr>filter_str := ''W'', filtered := [0]\<rparr>, CmdNil, no_file)"
    by (simp add: Update_def UpdateRunes_def addToFilter_def filterBookmarks_def browsing_def
        work_def play_def lowerASCII_def lowerByte_def)
  have 2: "Update lowerASCII (browsing [work, play] 0) (KeyMsg KeyDown []) no_file
        = Inr (browsing [work, play] 1, CmdNil, no_file)"
    by (simp add: Update_def browsing_def)
  have 3: "filter_str (browsing [work, play] 1) = []" "filtered (browsing [work, play] 1) = [0, 1]"
    by (simp_all add: browsing_def)
  from filtered_is_filter_after_every_key [OF inv lowerASCII_Nil, of KeyRunes "''W''" no_file]
    filtered_is_filter_after_every_key [OF inv lowerASCII_Nil, of KeyDown "[]" no_file]
    inv 1 2 3
  show ?thesis by simp
qed

section \<open>The cursor\<close>

text \<open>
  C4: every key event takes a session state to a session state, so the cursor stays an
  index of \<open>filtered\<close> whenever \<open>filtered\<close> is not empty. The up key at cursor 0 and the
  down key at the last index return the state as it was. Deleting the only record of a
  one-element view leaves the cursor at 0 (with both lists empty).
\<close>

theorem cursor_stays_in_range:
  assumes "session_inv lower m"
  shows "(\<exists>m' c s'. Update lower m (KeyMsg t runes) s = Inr (m', c, s') \<and> session_inv lower m'
            \<and> (filtered m' \<noteq> [] \<longrightarrow> 0 \<le> cursor m' \<and> cursor m' < int (length (filtered m'))))
       \<and> (cursor m = 0 \<longrightarrow> Update lower m (KeyMsg KeyUp runes) s = Inr (m, CmdNil, s))
       \<and> (cursor m = int (length (filtered m)) - 1 \<longrightarrow>
            Update lower m (KeyMsg KeyDown runes) s = Inr (m, CmdNil, s))
       \<and> (\<not> editing m \<and> filter_str m = [] \<and> length (filtered m) = 1 \<longrightarrow>
            Update lower m (KeyMsg KeyRunes ''d'') s
              = Inr (m\<lparr>bookmarks := [], filtered := [], cursor := 0\<rparr>, CmdNil,
                     fst (saveConfig \<lparr>Bookmarks = []\<rparr> s)))"
proof (intro conjI impI)
  obtain m' c s' where u: "Update lower m (KeyMsg t runes) s = Inr (m', c, s')"
    and inv: "session_inv lower m'"
    using Update_inv [OF assms] by blast
  then show "\<exists>m' c s'. Update lower m (KeyMsg t runes) s = Inr (m', c, s') \<and> session_inv lower m'
            \<and> (filtered m' \<noteq> [] \<longrightarrow> 0 \<le> cursor m' \<and> cursor m' < int (length (filtered m')))"
    using session_inv_cursor [OF inv] by blast
next
  assume "cursor m = 0"
  then show "Update lower m (KeyMsg KeyUp runes) s = Inr (m, CmdNil, s)"
    by (simp add: Update_def UpdateEditing_def)
next
  assume "cursor m = int (length (filtered m)) - 1"
  then show "Update lower m (KeyMsg KeyDown runes) s = Inr (m, CmdNil, s)"
    by (simp add: Update_def UpdateEditing_def)
next
  assume a: "\<not> editing m \<and> filter_str m = [] \<and> length (filtered m) = 1"
  then have ne: "filtered m \<noteq> []" by auto
  have fl: "filtered m = map int [0..<length (bookmarks m)]"
    using session_inv_filtered [OF assms] a by simp
  then have len: "length (bookmarks m) = 1" using a by simp
  then have fl0: "filtered m = [0]" using fl by simp
  have c: "cursor m = 0" using session_inv_cursor [OF assms ne] a by simp
  obtain b where bs: "bookmarks m = [b]" using len by (cases "bookmarks m") auto
  show "Update lower m (KeyMsg KeyRunes ''d'') s
              = Inr (m\<lparr>bookmarks := [], filtered := [], cursor := 0\<rparr>, CmdNil,
                     fst (saveConfig \<lparr>Bookmarks = []\<rparr> s))"
    using a c fl0 bs by (simp add: Update_def UpdateRunes_def elem_at_def remove_at_def)
qed

theorem cursor_stays_in_range_witness:
  "session_inv lowerASCII (browsing [work] 0)
   \<and> cursor (browsing [work] 0) = 0
   \<and> cursor (browsing [work] 0) = int (length (filtered (browsing [work] 0))) - 1
   \<and> \<not> editing (browsing [work] 0) \<and> filter_str (browsing [work] 0) = []
   \<and> length (filtered (browsing [work] 0)) = 1
   \<and> Update lowerASCII (browsing [work] 0) (KeyMsg KeyUp []) no_file = Inr (browsing [work] 0, CmdNil, no_file)
   \<and> Update lowerASCII (browsing [work] 0) (KeyMsg KeyDown []) no_file = Inr (browsing [work] 0, CmdNil, no_file)
   \<and> Update lowerASCII (browsing [work] 0) (KeyMsg KeyRunes ''d'') no_file
        = Inr (browsing [] 0, CmdNil, stored [])"
proof -
  have inv: "session_inv lowerASCII (browsing [work] 0)"
    by (simp add: session_inv_def browsing_def)
  have st: "fst (saveConfig \<lparr>Bookmarks = []\<rparr> no_file) = stored []"
    by (simp add: saveConfig_def os_MkdirAll_def os_WriteFile_def json_MarshalIndent_def
        no_file_def stored_def)
  show ?thesis
    using cursor_stays_in_range [OF inv, of KeyUp "[]" no_file] inv st
    by (simp add: browsing_def)
qed

section \<open>Deleting a bookmark\<close>

text \<open>
  C5: on a session state that is browsing with an empty filter and a non-empty
  \<open>filtered\<close>, the key \<open>d\<close> removes the record under the cursor from \<open>bookmarks\<close> (the
  records before it keep their index, those after it move down by one), saves the new
  list, computes \<open>filtered\<close> anew from the new list and the same filter, and moves the
  cursor back by one exactly when it is at or beyond the new length and above 0.
\<close>

theorem delete_removes_selected_record:
  assumes "session_inv lower m" and "\<not> editing m" and "filter_str m = []" and "filtered m \<noteq> []"
  shows "\<exists>bs fl. Update lower m (KeyMsg KeyRunes ''d'') s
                  = Inr (m\<lparr>bookmarks := bs, filtered := fl,
                           cursor := (if int (length fl) \<le> cursor m \<and> 0 < cursor m
                                      then cursor m - 1 else cursor m)\<rparr>,
                         CmdNil, fst (saveConfig \<lparr>Bookmarks = bs\<rparr> s))
          \<and> fl = filterBookmarks lower bs (filter_str m)
          \<and> bs = take (selected m) (bookmarks m) @ drop (Suc (selected m)) (bookmarks m)
          \<and> selected m < length (bookmarks m)
          \<and> length bs + 1 = length (bookmarks m)
          \<and> (\<forall>j. j < selected m \<longrightarrow> bs ! j = bookmarks m ! j)
          \<and> (\<forall>j. selected m \<le> j \<and> j < length bs \<longrightarrow> bs ! j = bookmarks m ! Suc j)"
proof -
  note sel = inv_selected [OF assms(1,4)]
  note rng = selected_in_range [OF assms(1,4)]
  let ?bs = "take (selected m) (bookmarks m) @ drop (Suc (selected m)) (bookmarks m)"
  let ?fl = "filterBookmarks lower ?bs (filter_str m)"
  have upd: "Update lower m (KeyMsg KeyRunes ''d'') s
                  = Inr (m\<lparr>bookmarks := ?bs, filtered := ?fl,
                           cursor := (if int (length ?fl) \<le> cursor m \<and> 0 < cursor m
                                      then cursor m - 1 else cursor m)\<rparr>,
                         CmdNil, fst (saveConfig \<lparr>Bookmarks = ?bs\<rparr> s))"
    using assms(2,3,4) sel rng(1)
    by (simp add: Update_def UpdateRunes_def elem_at_def remove_at_def selected_def Let_def)
  have len: "length ?bs + 1 = length (bookmarks m)"
    using rng(1) by simp
  have before: "\<forall>j. j < selected m \<longrightarrow> ?bs ! j = bookmarks m ! j"
    using rng(1) by (simp add: nth_append)
  have after: "\<forall>j. selected m \<le> j \<and> j < length ?bs \<longrightarrow> ?bs ! j = bookmarks m ! Suc j"
    using rng(1) by (auto simp: nth_append min_def)
  show ?thesis
    using upd len before after rng(1) by blast
qed

theorem delete_removes_selected_record_witness:
  "session_inv lowerASCII (browsing [work, play, docs] 1) \<and> \<not> editing (browsing [work, play, docs] 1)
   \<and> filter_str (browsing [work, play, docs] 1) = [] \<and> filtered (browsing [work, play, docs] 1) \<noteq> []
   \<and> Update lowerASCII (browsing [work, play, docs] 1) (KeyMsg KeyRunes ''d'') no_file
        = Inr (browsing [work, docs] 1, CmdNil,
               stored [JObject [(''path'', JString ''/home/u/work''), (''name'', JString ''work''),
                                (''count'', JInt 5)],
                       JObject [(''path'', JString ''/home/u/docs''), (''count'', JInt 2)]])
   \<and> session_inv lowerASCII (browsing [work, docs] 1) \<and> \<not> editing (browsing [work, docs] 1)
   \<and> filter_str (browsing [work, docs] 1) = [] \<and> filtered (browsing [work, docs] 1) \<noteq> []
   \<and> Update lowerASCII (browsing [work, docs] 1) (KeyMsg KeyRunes ''d'') no_file
        = Inr (browsing [work] 0, CmdNil,
               stored [JObject [(''path'', JString ''/home/u/work''), (''name'', JString ''work''),
                                (''count'', JInt 5)]])"
proof -
  have inv: "session_inv lowerASCII (browsing [work, play, docs] 1)"
    "session_inv lowerASCII (browsing [work, docs] 1)"
    by (simp_all add: session_inv_def browsing_def)
  have br: "\<not> editing (browsing [work, play, docs] 1)" "filter_str (browsing [work, play, docs] 1) = []"
    "filtered (browsing [work, play, docs] 1) \<noteq> []"
    by (simp_all add: browsing_def)
  have br2: "\<not> editing (browsing [work, docs] 1)" "filter_str (browsing [work, docs] 1) = []"
    "filtered (browsing [work, docs] 1) \<noteq> []"
    by (simp_all add: browsing_def)
  have ev: "Update lowerASCII (browsing [work, play, docs] 1) (KeyMsg KeyRunes ''d'') no_file
        = Inr (browsing [work, docs] 1, CmdNil,
               stored [JObject [(''path'', JString ''/home/u/work''), (''name'', JString ''work''),
                                (''count'', JInt 5)],
                       JObject [(''path'', JString ''/home/u/docs''), (''count'', JInt 2)]])"
    by (simp add: Update_def UpdateRunes_def elem_at_def remove_at_def browsing_def work_def docs_def
        saveConfig_def os_MkdirAll_def os_WriteFile_def json_MarshalIndent_def marshalBookmark_def
        no_file_def stored_def)
  have ev2: "Update lowerASCII (browsing [work, docs] 1) (KeyMsg KeyRunes ''d'') no_file
        = Inr (browsing [work] 0, CmdNil,
               stored [JObject [(''path'', JString ''/home/u/work''), (''name'', JString ''work''),
                                (''count'', JInt 5)]])"
    by (simp add: Update_def UpdateRunes_def elem_at_def remove_at_def browsing_def work_def
        saveConfig_def os_MkdirAll_def os_WriteFile_def json_MarshalIndent_def marshalBookmark_def
        no_file_def stored_def)
  from delete_removes_selected_record [OF inv(1) br, of no_file]
    delete_removes_selected_record [OF inv(2) br2, of no_file] ev ev2 inv br br2
  show ?thesis by blast
qed

section \<open>Backspace while browsing\<close>

text \<open>
  C9, as stated, fails: with an empty filter the backspace key returns the state as it
  was, so a cursor that is not 0 is not set to 0. Here the cursor is at 1 (after one down
  key) and stays there.
\<close>

theorem backspace_counterexample:
  "session_inv lowerASCII (browsing [work, play] 1) \<and> \<not> editing (browsing [work, play] 1)
   \<and> Update lowerASCII (browsing [work, play] 0) (KeyMsg KeyDown []) no_file
        = Inr (browsing [work, play] 1, CmdNil, no_file)
   \<and> Update lowerASCII (browsing [work, play] 1) (KeyMsg KeyBackspace []) no_file
        = Inr (browsing [work, play] 1, CmdNil, no_file)
   \<and> cursor (browsing [work, play] 1) = 1"
  by (simp add: session_inv_def browsing_def Update_def)

text \<open>
  C9, amended: while browsing, the backspace key on a non-empty filter removes the last
  byte of the filter, computes \<open>filtered\<close> from \<open>bookmarks\<close> and the new filter, and sets
  the cursor to 0; on an empty filter it returns the state as it was.
\<close>

theorem backspace_shortens_filter:
  assumes "\<not> editing m"
  shows "Update lower m (KeyMsg KeyBackspace runes) s =
           (if filter_str m \<noteq> []
            then Inr (m\<lparr>filter_str := butlast (filter_str m),
                        filtered := filterBookmarks lower (bookmarks m) (butlast (filter_str m)),
                        cursor := 0\<rparr>, CmdNil, s)
            else Inr (m, CmdNil, s))"
  using assms by (simp add: Update_def Let_def butlast_conv_take)

theorem backspace_shortens_filter_witness:
  "\<not> editing ((browsing [work, play] 1)\<lparr>filter_str := ''pl'', filtered := [1], cursor := 0\<rparr>)
   \<and> Update lowerASCII ((browsing [work, play] 1)\<lparr>filter_str := ''pl'', filtered := [1], cursor := 0\<rparr>)
         (KeyMsg KeyBackspace []) no_file
       = Inr ((browsing [work, play] 1)\<lparr>filter_str := ''p'', filtered := [1], cursor := 0\<rparr>, CmdNil, no_file)"
  using backspace_shortens_filter
    [of "(browsing [work, play] 1)\<lparr>filter_str := ''pl'', filtered := [1], cursor := 0\<rparr>"
        lowerASCII "[]" no_file]
  by (simp add: browsing_def filterBookmarks_def work_def play_def lowerASCII_def lowerByte_def)

section \<open>Renaming a bookmark\<close>

text \<open>
  C6, as stated, fails in its example: the key \<open>e\<close> starts the edit buffer with the name
  the record has, so typing \<open>x\<close>, \<open>y\<close> and confirming on a record named \<open>work\<close> names it
  \<open>workxy\<close>, not \<open>xy\<close>.
\<close>

theorem edit_confirm_counterexample:
  "run lowerASCII [KeyMsg KeyRunes ''e'', KeyMsg KeyRunes ''x'', KeyMsg KeyRunes ''y'', KeyMsg KeyEnter []]
     (browsing [work] 0) no_file
   = Inr (browsing [work\<lparr>Name := ''workxy''\<rparr>] 0, CmdNil,
          stored [JObject [(''path'', JString ''/home/u/work''), (''name'', JString ''workxy''),
                           (''count'', JInt 5)]])
   \<and> Name work = ''work''"
  by (simp add: Update_def UpdateRunes_def UpdateEditing_def elem_at_def modify_at_def setName_def
      browsing_def work_def saveConfig_def os_MkdirAll_def os_WriteFile_def json_MarshalIndent_def
      marshalBookmark_def no_file_def stored_def)

lemma edit_keys:
  assumes "session_inv lower m" and "\<not> editing m" and "filter_str m = []" and "filtered m \<noteq> []"
  shows "Update lower m (KeyMsg KeyRunes ''e'') s
           = Inr (m\<lparr>editing := True, editValue := Name (bookmarks m ! selected m)\<rparr>, CmdNil, s)"
    and "session_inv lower (m\<lparr>editing := True, editValue := v\<rparr>)"
proof -
  note sel = inv_selected [OF assms(1,4)]
  show "Update lower m (KeyMsg KeyRunes ''e'') s
           = Inr (m\<lparr>editing := True, editValue := Name (bookmarks m ! selected m)\<rparr>, CmdNil, s)"
    using assms(2,3,4) sel by (simp add: Update_def UpdateRunes_def elem_at_def selected_def)
  show "session_inv lower (m\<lparr>editing := True, editValue := v\<rparr>)"
    using session_inv_filtered [OF assms(1)] session_inv_cursor [OF assms(1)] assms(3,4)
    by (intro session_invI) simp_all
qed

lemma edit_confirm:
  assumes "session_inv lower m" and "editing m"
  shows "Update lower m (KeyMsg KeyEnter runes) s
           = Inr (m\<lparr>bookmarks := (bookmarks m)[selected m := (bookmarks m ! selected m)\<lparr>Name := editValue m\<rparr>],
                    editing := False, editValue := []\<rparr>, CmdNil,
                  fst (saveConfig \<lparr>Bookmarks = (bookmarks m)[selected m := (bookmarks m ! selected m)\<lparr>Name := editValue m\<rparr>]\<rparr> s))"
    and "selected m < length (bookmarks m)"
proof -
  have ne: "filtered m \<noteq> []" using session_inv_editing [OF assms] by simp
  note sel = inv_selected [OF assms(1) ne]
  show "Update lower m (KeyMsg KeyEnter runes) s
           = Inr (m\<lparr>bookmarks := (bookmarks m)[selected m := (bookmarks m ! selected m)\<lparr>Name := editValue m\<rparr>],
                    editing := False, editValue := []\<rparr>, CmdNil,
                  fst (saveConfig \<lparr>Bookmarks = (bookmarks m)[selected m := (bookmarks m ! selected m)\<lparr>Name := editValue m\<rparr>]\<rparr> s))"
    using assms(2) ne sel
    by (simp add: Update_def UpdateEditing_def elem_at_def modify_at_def selected_def setName_def)
  show "selected m < length (bookmarks m)"
    using selected_in_range [OF assms(1) ne] by simp
qed

lemma edit_cancel:
  assumes "editing m"
  shows "Update lower m (KeyMsg KeyEsc runes) s = Inr (m\<lparr>editing := False, editValue := []\<rparr>, CmdNil, s)"
  using assms by (simp add: Update_def UpdateEditing_def)

lemma edit_type:
  assumes "editing m"
  shows "Update lower m (KeyMsg KeyRunes runes) s = Inr (m\<lparr>editValue := editValue m @ runes\<rparr>, CmdNil, s)"
  using assms by (simp add: Update_def UpdateEditing_def)

text \<open>
  C6, amended: in a session state that is editing, the confirm key sets the name of the
  record under the cursor to the edit buffer, saves the list and goes back to browsing;
  the cancel key goes back to browsing with the list as it was and saves nothing. From a
  browsing state with an empty filter and a record under the cursor, the keys \<open>e\<close>, \<open>x\<close>,
  \<open>y\<close> and cancel leave the list as it was, and \<open>e\<close>, \<open>x\<close>, \<open>y\<close> and confirm set the name
  to the name the record had followed by \<open>xy\<close>.
\<close>

theorem edit_commit_and_cancel:
  assumes "session_inv lower m"
  shows "(editing m \<longrightarrow>
            selected m < length (bookmarks m)
          \<and> Update lower m (KeyMsg KeyEnter runes) s
              = Inr (m\<lparr>bookmarks := (bookmarks m)[selected m := (bookmarks m ! selected m)\<lparr>Name := editValue m\<rparr>],
                       editing := False, editValue := []\<rparr>, CmdNil,
                     fst (saveConfig \<lparr>Bookmarks = (bookmarks m)[selected m := (bookmarks m ! selected m)\<lparr>Name := editValue m\<rparr>]\<rparr> s))
          \<and> Update lower m (KeyMsg KeyEsc runes) s
              = Inr (m\<lparr>editing := False, editValue := []\<rparr>, CmdNil, s))
       \<and> (\<not> editing m \<and> filter_str m = [] \<and> filtered m \<noteq> [] \<longrightarrow>
            run lower [KeyMsg KeyRunes ''e'', KeyMsg KeyRunes ''x'', KeyMsg KeyRunes ''y'', KeyMsg KeyEsc []] m s
              = Inr (m\<lparr>editing := False, editValue := []\<rparr>, CmdNil, s)
          \<and> run lower [KeyMsg KeyRunes ''e'', KeyMsg KeyRunes ''x'', KeyMsg KeyRunes ''y'', KeyMsg KeyEnter []] m s
              = Inr (m\<lparr>bookmarks := (bookmarks m)[selected m := (bookmarks m ! selected m)\<lparr>Name := Name (bookmarks m ! selected m) @ ''xy''\<rparr>],
                       editing := False, editValue := []\<rparr>, CmdNil,
                     fst (saveConfig \<lparr>Bookmarks = (bookmarks m)[selected m := (bookmarks m ! selected m)\<lparr>Name := Name (bookmarks m ! selected m) @ ''xy''\<rparr>]\<rparr> s)))"
proof (intro conjI impI)
  assume e: "editing m"
  show "selected m < length (bookmarks m)" by (rule edit_confirm(2) [OF assms e])
  show "Update lower m (KeyMsg KeyEnter runes) s
              = Inr (m\<lparr>bookmarks := (bookmarks m)[selected m := (bookmarks m ! selected m)\<lparr>Name := editValue m\<rparr>],
                       editing := False, editValue := []\<rparr>, CmdNil,
                     fst (saveConfig \<lparr>Bookmarks = (bookmarks m)[selected m := (bookmarks m ! selected m)\<lparr>Name := editValue m\<rparr>]\<rparr> s))"
    by (rule edit_confirm(1) [OF assms e])
  show "Update lower m (KeyMsg KeyEsc runes) s = Inr (m\<lparr>editing := False, editValue := []\<rparr>, CmdNil, s)"
    by (rule edit_cancel [OF e])
next
  assume b: "\<not> editing m \<and> filter_str m = [] \<and> filtered m \<noteq> []"
  let ?v = "Name (bookmarks m ! selected m)"
  let ?m1 = "m\<lparr>editing := True, editValue := ?v\<rparr>"
  let ?m3 = "m\<lparr>editing := True, editValue := ?v @ ''xy''\<rparr>"
  have s1: "Update lower m (KeyMsg KeyRunes ''e'') s = Inr (?m1, CmdNil, s)"
    using edit_keys(1) [OF assms] b by blast
  have s2: "Update lower ?m1 (KeyMsg KeyRunes ''x'') s = Inr (m\<lparr>editing := True, editValue := ?v @ ''x''\<rparr>, CmdNil, s)"
    by (simp add: edit_type)
  have s3: "Update lower (m\<lparr>editing := True, editValue := ?v @ ''x''\<rparr>) (KeyMsg KeyRunes ''y'') s = Inr (?m3, CmdNil, s)"
    by (simp add: edit_type)
  have inv3: "session_inv lower ?m3"
    using edit_keys(2) [OF assms] b by blast
  have sel3: "selected ?m3 = selected m" by (simp add: selected_def)
  show "run lower [KeyMsg KeyRunes ''e'', KeyMsg KeyRunes ''x'', KeyMsg KeyRunes ''y'', KeyMsg KeyEsc []] m s
              = Inr (m\<lparr>editing := False, editValue := []\<rparr>, CmdNil, s)"
    by (simp add: s1 s2 s3 edit_cancel)
  show "run lower [KeyMsg KeyRunes ''e'', KeyMsg KeyRunes ''x'', KeyMsg KeyRunes ''y'', KeyMsg KeyEnter []] m s
              = Inr (m\<lparr>bookmarks := (bookmarks m)[selected m := (bookmarks m ! selected m)\<lparr>Name := Name (bookmarks m ! selected m) @ ''xy''\<rparr>],
                       editing := False, editValue := []\<rparr>, CmdNil,
                     fst (saveConfig \<lparr>Bookmarks = (bookmarks m)[selected m := (bookmarks m ! selected m)\<lparr>Name := Name (bookmarks m ! selected m) @ ''xy''\<rparr>]\<rparr> s))"
    using edit_confirm(1) [OF inv3, of "[]" s] by (simp add: s1 s2 s3 sel3)
qed


theorem edit_commit_and_cancel_witness:
  "session_inv lowerASCII ((browsing [play] 0)\<lparr>editing := True, editValue := ''xy''\<rparr>)
   \<and> editing ((browsing [play] 0)\<lparr>editing := True, editValue := ''xy''\<rparr>)
   \<and> Update lowerASCII ((browsing [play] 0)\<lparr>editing := True, editValue := ''xy''\<rparr>) (KeyMsg KeyEnter []) no_file
       = Inr (browsing [play\<lparr>Name := ''xy''\<rparr>] 0, CmdNil,
              stored [JObject [(''path'', JString ''/tmp/play''), (''name'', JString ''xy''), (''count'', JInt 0)]])
   \<and> Update lowerASCII ((browsing [play] 0)\<lparr>editing := True, editValue := ''xy''\<rparr>) (KeyMsg KeyEsc []) no_file
       = Inr (browsing [play] 0, CmdNil, no_file)
   \<and> session_inv lowerASCII (browsing [play] 0) \<and> \<not> editing (browsing [play] 0)
   \<and> filter_str (browsing [play] 0) = [] \<and> filtered (browsing [play] 0) \<noteq> []
   \<and> run lowerASCII [KeyMsg KeyRunes ''e'', KeyMsg KeyRunes ''x'', KeyMsg KeyRunes ''y'', KeyMsg KeyEsc []]
         (browsing [play] 0) no_file
       = Inr (browsing [play] 0, CmdNil, no_file)
   \<and> run lowerASCII [KeyMsg KeyRunes ''e'', KeyMsg KeyRunes ''x'', KeyMsg KeyRunes ''y'', KeyMsg KeyEnter []]
         (browsing [play] 0) no_file
       = Inr (browsing [play\<lparr>Name := ''xy''\<rparr>] 0, CmdNil,
              stored [JObject [(''path'', JString ''/tmp/play''), (''name'', JString ''xy''), (''count'', JInt 0)]])"
proof -
  have inv1: "session_inv lowerASCII ((browsing [play] 0)\<lparr>editing := True, editValue := ''xy''\<rparr>)"
    by (simp add: session_inv_def browsing_def)
  have inv2: "session_inv lowerASCII (browsing [play] 0)"
    by (simp add: session_inv_def browsing_def)
  have st: "fst (saveConfig \<lparr>Bookmarks = [play\<lparr>Name := ''xy''\<rparr>]\<rparr> no_file)
              = stored [JObject [(''path'', JString ''/tmp/play''), (''name'', JString ''xy''), (''count'', JInt 0)]]"
    by (simp add: saveConfig_def os_MkdirAll_def os_WriteFile_def json_MarshalIndent_def
        marshalBookmark_def no_file_def stored_def play_def)
  have sel: "selected ((browsing [play] 0)\<lparr>editing := True, editValue := ''xy''\<rparr>) = 0"
    "selected (browsing [play] 0) = 0"
    by (simp_all add: selected_def browsing_def)
  show ?thesis
    using edit_commit_and_cancel [OF inv1, of "[]" no_file] edit_commit_and_cancel [OF inv2, of "[]" no_file]
      inv1 inv2 st
    by (simp add: sel) (simp add: browsing_def play_def)
qed

section \<open>The store\<close>

lemma toValidUTF8_id: "ValidString s \<Longrightarrow> toValidUTF8 s = s"
proof (induction s rule: toValidUTF8.induct)
  case 1
  show ?case by simp
next
  case (2 a s)
  let ?n = "rune_len (a # s)"
  from "2.prems" have n: "?n \<noteq> 0" and v: "ValidString (drop (?n - 1) s)" by simp_all
  have "toValidUTF8 (drop (?n - 1) s) = drop (?n - 1) s"
    using "2.IH"(2) n v by simp
  moreover have "drop (?n - 1) s = drop ?n (a # s)"
    using n by (cases ?n) simp_all
  ultimately show ?case using n by simp
qed

lemma matchField_keys [simp]:
  "matchField ''path'' ''path''" "\<not> matchField ''name'' ''path''" "\<not> matchField ''count'' ''path''"
  "matchField ''name'' ''name''" "\<not> matchField ''count'' ''name''"
  "matchField ''count'' ''count''" "matchField ''bookmarks'' ''bookmarks''"
  by (simp_all add: matchField_def upperByte_def)

lemma decodeInt_sint: "decodeInt (JInt (sint c)) old = (c, False)"
proof -
  have "- (2 ^ 63) \<le> sint c" using sint_ge [of c] by simp
  moreover have "sint c < 2 ^ 63" using sint_lt [of c] by simp
  ultimately show ?thesis by (simp add: decodeInt_def)
qed
lemma toValidUTF8_Nil_iff [simp]: "toValidUTF8 s = [] \<longleftrightarrow> s = []"
  by (cases s) auto

lemma decode_marshalBookmark:
  "decodeBookmark (marshalBookmark b) zeroBookmark = (coerce b, False)"
  by (simp add: decodeBookmark_def marshalBookmark_def decodeString_def decodeInt_sint
      zeroBookmark_def coerce_def)

lemma decodeElems_marshal:
  "decodeElems (map marshalBookmark bs) [] = (map coerce bs, False)"
  by (induction bs) (simp_all add: decode_marshalBookmark)

lemma Unmarshal_Marshal:
  "json_MarshalIndent \<lparr>Bookmarks = bs\<rparr> = Inr d \<Longrightarrow>
   json_Unmarshal d \<lparr>Bookmarks = []\<rparr> = (\<lparr>Bookmarks = map coerce bs\<rparr>, None)"
  by (auto simp: json_MarshalIndent_def json_Unmarshal_def decodeSlice_def decodeElems_marshal)

lemma coerce_valid: "ValidString (Path b) \<Longrightarrow> ValidString (Name b) \<Longrightarrow> coerce b = b"
  by (simp add: coerce_def toValidUTF8_id)

lemma load_after_save:
  assumes "saveConfig \<lparr>Bookmarks = bs\<rparr> s = (s', None)" and "\<not> read_fails s"
  shows "loadConfig s' = \<lparr>Bookmarks = map coerce bs\<rparr>"
  using assms
  by (auto simp: saveConfig_def loadConfig_def os_MkdirAll_def os_WriteFile_def os_ReadFile_def
      Unmarshal_Marshal json_MarshalIndent_def split: if_splits)

text \<open>
  C7, as stated, fails: \<open>json.Marshal\<close> coerces strings to valid UTF-8, so a record whose
  name or path is not valid UTF-8 comes back changed. Such a record arises in the program
  itself: typing U+00E9 (two bytes) while editing and one backspace (which removes one byte)
  leave the byte C3 as the name; the document then holds U+FFFD (three bytes) for it.
\<close>

theorem save_then_load_counterexample:
  "snd (saveConfig \<lparr>Bookmarks = [play\<lparr>Name := [CHR 0xC3]\<rparr>]\<rparr> no_file) = None
   \<and> loadConfig (fst (saveConfig \<lparr>Bookmarks = [play\<lparr>Name := [CHR 0xC3]\<rparr>]\<rparr> no_file))
       = \<lparr>Bookmarks = [play\<lparr>Name := [CHR 0xEF, CHR 0xBF, CHR 0xBD]\<rparr>]\<rparr>
   \<and> run lowerASCII [KeyMsg KeyRunes ''e'', KeyMsg KeyRunes [CHR 0xC3, CHR 0xA9],
                      KeyMsg KeyBackspace [], KeyMsg KeyEnter []] (browsing [play] 0) no_file
       = Inr (browsing [play\<lparr>Name := [CHR 0xC3]\<rparr>] 0, CmdNil,
              stored [JObject [(''path'', JString ''/tmp/play''),
                               (''name'', JString [CHR 0xEF, CHR 0xBF, CHR 0xBD]), (''count'', JInt 0)]])"
  by (simp add: saveConfig_def loadConfig_def os_MkdirAll_def os_WriteFile_def os_ReadFile_def
      json_MarshalIndent_def json_Unmarshal_def marshalBookmark_def decodeSlice_def decodeBookmark_def
      decodeString_def decodeInt_def zeroBookmark_def no_file_def stored_def play_def
      Update_def UpdateRunes_def UpdateEditing_def elem_at_def modify_at_def setName_def browsing_def)

text \<open>
  C7, amended: when creating the directory, writing and reading do not fail, saving a
  sequence of records whose paths and names are valid UTF-8 succeeds, and loading then
  gives the same sequence, field for field; this includes the empty sequence, empty names
  (the member \<open>name\<close> is left out and read back as empty) and counts of zero.
\<close>

theorem save_then_load:
  assumes "\<not> mkdir_fails s" and "\<not> write_fails s" and "\<not> read_fails s"
    and "\<forall>b\<in>set bs. ValidString (Path b) \<and> ValidString (Name b)"
  shows "snd (saveConfig \<lparr>Bookmarks = bs\<rparr> s) = None
       \<and> loadConfig (fst (saveConfig \<lparr>Bookmarks = bs\<rparr> s)) = \<lparr>Bookmarks = bs\<rparr>"
proof -
  obtain s' where sv: "saveConfig \<lparr>Bookmarks = bs\<rparr> s = (s', None)"
    using assms(1,2)
    by (simp add: saveConfig_def os_MkdirAll_def os_WriteFile_def json_MarshalIndent_def)
  have "map coerce bs = bs"
    using assms(4) by (simp add: coerce_valid map_idI)
  then have "loadConfig s' = \<lparr>Bookmarks = bs\<rparr>"
    using load_after_save [OF sv assms(3)] by simp
  then show ?thesis using sv by simp
qed

theorem save_then_load_witness:
  "\<not> mkdir_fails no_file \<and> \<not> write_fails no_file \<and> \<not> read_fails no_file
   \<and> ValidString (Path work) \<and> ValidString (Name work) \<and> ValidString (Path play) \<and> ValidString (Name play)
   \<and> Name play = [] \<and> Count play = 0
   \<and> loadConfig (fst (saveConfig \<lparr>Bookmarks = [work, play]\<rparr> no_file)) = \<lparr>Bookmarks = [work, play]\<rparr>
   \<and> loadConfig (fst (saveConfig \<lparr>Bookmarks = []\<rparr> no_file)) = \<lparr>Bookmarks = []\<rparr>"
proof -
  have env: "\<not> mkdir_fails no_file" "\<not> write_fails no_file" "\<not> read_fails no_file"
    by (simp_all add: no_file_def)
  have v: "ValidString (Path work)" "ValidString (Name work)" "ValidString (Path play)" "ValidString (Name play)"
    by (simp_all add: work_def play_def)
  have z: "Name play = []" "Count play = 0" by (simp_all add: play_def)
  from v have all: "\<forall>b\<in>set [work, play]. ValidString (Path b) \<and> ValidString (Name b)" by simp
  show ?thesis
    using save_then_load [OF env all] save_then_load [OF env, of "[]"] env v z by simp
qed



lemma string_or_simps [simp]: "string_or old [] = old"
  "string_or old [v] = fst (decodeString v old)"
  by (simp_all add: string_or_def decodeString_def split: json.splits)

lemma int_or_simps [simp]: "int_or old [] = old"
  "int_or old [v] = fst (decodeInt v old)"
  by (simp_all add: int_or_def decodeInt_def split: json.splits)



lemma members_named_Nil [simp]: "members_named f [] = []"
  by (simp add: members_named_def)










section \<open>The order of the list at the start\<close>

lemma mset_bubble [simp]: "mset (bubble lt x q) = add_mset x (mset q)"
  by (induction q) simp_all

lemma set_bubble [simp]: "set (bubble lt x q) = insert x (set q)"
  by (induction q) auto

lemma sorted_bubble:
  assumes "strict_weak_order lt" and "sorted_wrt (\<lambda>a b. \<not> lt a b) q"
  shows "sorted_wrt (\<lambda>a b. \<not> lt a b) (bubble lt x q)"
  using assms(2)
proof (induction q)
  case Nil
  show ?case by simp
next
  case (Cons y q)
  have asym: "\<And>a b. lt a b \<Longrightarrow> \<not> lt b a"
    and ntrans: "\<And>a b c. \<not> lt a b \<Longrightarrow> \<not> lt b c \<Longrightarrow> \<not> lt a c"
    using assms(1) unfolding strict_weak_order_def by blast+
  show ?case
  proof (cases "lt x y")
    case True
    then show ?thesis using Cons asym by auto
  next
    case False
    then show ?thesis using Cons.prems ntrans by auto
  qed
qed

lemma foldl_bubble:
  assumes "strict_weak_order lt" and "sorted_wrt (\<lambda>a b. \<not> lt a b) q"
  shows "mset (foldl (\<lambda>q x. bubble lt x q) q xs) = mset q + mset xs
       \<and> sorted_wrt (\<lambda>a b. \<not> lt a b) (foldl (\<lambda>q x. bubble lt x q) q xs)"
  using assms(2)
proof (induction xs arbitrary: q)
  case Nil
  then show ?case by simp
next
  case (Cons x xs)
  show ?case using Cons.IH [OF sorted_bubble [OF assms(1) Cons.prems, of x]] by simp
qed

lemma insertionSort_sorts:
  assumes "strict_weak_order lt"
  shows "mset (insertionSort lt xs) = mset xs"
    and "sorted_wrt (\<lambda>a b. \<not> lt b a) (insertionSort lt xs)"
  using foldl_bubble [OF assms, of "[]" xs]
  by (simp_all add: insertionSort_def sorted_wrt_rev)

lemma insertionSort_contract: "sort_Slice_contract insertionSort"
  unfolding sort_Slice_contract_def using insertionSort_sorts by blast


lemma initialModel_inv: "session_inv lower (initialModel lower sort_Slice s)"
  by (simp add: session_inv_def initialModel_def Let_def)

lemma reachable_inv:
  "\<exists>m' c s'. run lower msgs (initialModel lower sort_Slice s0) s = Inr (m', c, s') \<and> session_inv lower m'"
  by (rule run_inv [OF initialModel_inv])



lemma scanLess_le: "i \<le> j + 1 \<Longrightarrow> scanLess lt d a i j \<le> j + 1"
proof (induction lt d a i j rule: scanLess.induct)
  case (1 lt d a i j)
  then show ?case by (subst scanLess.simps) auto
qed

lemma scanNotLess_ge: "min (i - 1) j \<le> scanNotLess lt d a i j"
proof (induction lt d a i j rule: scanNotLess.induct)
  case (1 lt d a i j)
  then show ?case by (subst scanNotLess.simps) auto
qed

lemma partitionLoop_le: "snd (partitionLoop lt d a i j) \<le> j"
proof (induction lt d a i j rule: partitionLoop.induct)
  case (1 lt d a i j)
  let ?i1 = "scanLess lt d a i j"
  let ?j1 = "scanNotLess lt d a ?i1 j"
  have j1: "?j1 \<le> j" by (rule scanNotLess_le)
  show ?case
  proof (cases "?j1 < ?i1")
    case True
    then show ?thesis using j1 by (subst partitionLoop.simps) (simp add: Let_def)
  next
    case False
    then have "snd (partitionLoop lt (swap d ?i1 ?j1) a (?i1 + 1) (?j1 - 1)) \<le> ?j1 - 1"
      using "1.IH" by simp
    then show ?thesis using False j1 by (subst partitionLoop.simps) (simp add: Let_def)
  qed
qed

lemma partitionLoop_ge: "min (i - 1) j \<le> snd (partitionLoop lt d a i j)"
proof (induction lt d a i j rule: partitionLoop.induct)
  case (1 lt d a i j)
  let ?i1 = "scanLess lt d a i j"
  let ?j1 = "scanNotLess lt d a ?i1 j"
  have i1: "i \<le> ?i1" by (rule scanLess_ge)
  have j1: "min (?i1 - 1) j \<le> ?j1" by (rule scanNotLess_ge)
  show ?case
  proof (cases "?j1 < ?i1")
    case True
    then show ?thesis using i1 j1 by (subst partitionLoop.simps) (simp add: Let_def)
  next
    case False
    then have "min (?i1 + 1 - 1) (?j1 - 1) \<le> snd (partitionLoop lt (swap d ?i1 ?j1) a (?i1 + 1) (?j1 - 1))"
      using "1.IH" by simp
    then show ?thesis using False i1 by (subst partitionLoop.simps) (simp add: Let_def)
  qed
qed

lemma partition_func_bounds:
  assumes "a < b"
  shows "a \<le> fst (snd (partition_func lt d a b p))" and "fst (snd (partition_func lt d a b p)) < b"
proof -
  let ?d = "swap d a p"
  let ?i = "scanLess lt ?d a (a + 1) (b - 1)"
  let ?j = "scanNotLess lt ?d a ?i (b - 1)"
  have i: "a + 1 \<le> ?i" by (rule scanLess_ge)
  have j: "?j \<le> b - 1" "min (?i - 1) (b - 1) \<le> ?j"
    by (rule scanNotLess_le, rule scanNotLess_ge)
  have lo: "min (?i + 1 - 1) (?j - 1) \<le> snd (partitionLoop lt (swap ?d ?i ?j) a (?i + 1) (?j - 1))"
    by (rule partitionLoop_ge)
  have hi: "snd (partitionLoop lt (swap ?d ?i ?j) a (?i + 1) (?j - 1)) \<le> ?j - 1"
    by (rule partitionLoop_le)
  show "a \<le> fst (snd (partition_func lt d a b p))"
    using assms i j lo by (auto simp: partition_func_def Let_def split_def)
  show "fst (snd (partition_func lt d a b p)) < b"
    using assms j hi by (auto simp: partition_func_def Let_def split_def)
qed

lemma partitionEqualLoop_ge: "i \<le> snd (partitionEqualLoop lt d a i j)"
proof (induction lt d a i j rule: partitionEqualLoop.induct)
  case (1 lt d a i j)
  let ?i1 = "scanNotGreater lt d a i j"
  let ?j1 = "scanGreater lt d a ?i1 j"
  have i1: "i \<le> ?i1" by (rule scanNotGreater_ge)
  show ?case
  proof (cases "?j1 < ?i1")
    case True
    then show ?thesis using i1 by (subst partitionEqualLoop.simps) (simp add: Let_def)
  next
    case False
    then have "?i1 + 1 \<le> snd (partitionEqualLoop lt (swap d ?i1 ?j1) a (?i1 + 1) (?j1 - 1))"
      using "1.IH" by simp
    then show ?thesis using False i1 by (subst partitionEqualLoop.simps) (simp add: Let_def)
  qed
qed

lemma partitionEqual_func_bound: "a < snd (partitionEqual_func lt d a b p)"
  using partitionEqualLoop_ge [of "a + 1" lt "swap d a p" a "b - 1"]
  by (simp add: partitionEqual_func_def)

lemma pdqsort_fuel:
  "b - a \<le> int fuel \<Longrightarrow> pdqsort_func (Suc fuel) lt d a b limit wasBalanced wasPartitioned \<noteq> None"
proof (induction fuel arbitrary: d a b limit wasBalanced wasPartitioned)
  case 0
  then show ?case by simp
next
  case (Suc fuel)
  show ?case
  proof (cases "b - a \<le> 12 \<or> limit = 0")
    case True
    then show ?thesis by auto
  next
    case False
    then have ab: "a < b" by simp
    obtain d3 pivot limit1 finished
      where head: "roundHead lt d a b limit wasBalanced wasPartitioned = (d3, pivot, limit1, finished)"
      by (cases "roundHead lt d a b limit wasBalanced wasPartitioned") auto
    have rec: "pdqsort_func (Suc fuel) lt d' a' b' l' wb wp \<noteq> None" if "b' - a' \<le> int fuel"
      for d' a' b' l' wb wp
      using Suc.IH that by blast
    show ?thesis
    proof (cases finished)
      case True
      then show ?thesis using False head by (simp del: pdqsort_func.simps add: pdqsort_func.simps(2) [of "Suc fuel"])
    next
      case unsorted: False
      show ?thesis
      proof (cases "0 < a \<and> \<not> lessAt lt d3 (a - 1) pivot")
        case True
        obtain d4 mid where pe: "partitionEqual_func lt d3 a b pivot = (d4, mid)"
          by (cases "partitionEqual_func lt d3 a b pivot") auto
        have "a < mid" using partitionEqual_func_bound [of a lt d3 b pivot] pe by simp
        then have "pdqsort_func (Suc fuel) lt d4 mid b limit1 wasBalanced wasPartitioned \<noteq> None"
          using rec [of b mid] Suc.prems by simp
        then show ?thesis
          using False head unsorted True pe
          by (simp del: pdqsort_func.simps add: pdqsort_func.simps(2) [of "Suc fuel"])
      next
        case noteq: False
        obtain d4 mid ap where pf: "partition_func lt d3 a b pivot = (d4, mid, ap)"
          by (cases "partition_func lt d3 a b pivot") auto
        have mid: "a \<le> mid" "mid < b"
          using partition_func_bounds [OF ab, of lt d3 pivot] pf by simp_all
        have l: "pdqsort_func (Suc fuel) lt d' a mid l' wb wp \<noteq> None" for d' l' wb wp
          using rec [of mid a] mid Suc.prems by simp
        have r: "pdqsort_func (Suc fuel) lt d' (mid + 1) b l' wb wp \<noteq> None" for d' l' wb wp
          using rec [of b "mid + 1"] mid Suc.prems by simp
        show ?thesis
        proof (cases "mid - a < b - mid")
          case True
          obtain d5 where "pdqsort_func (Suc fuel) lt d4 a mid limit1 True True = Some d5"
            using l by blast
          then show ?thesis
            using False head unsorted noteq pf True r
            by (auto simp del: pdqsort_func.simps simp add: pdqsort_func.simps(2) [of "Suc fuel"])
        next
          case right: False
          obtain d5 where "pdqsort_func (Suc fuel) lt d4 (mid + 1) b limit1 True True = Some d5"
            using r by blast
          then show ?thesis
            using False head unsorted noteq pf right l
            by (auto simp del: pdqsort_func.simps simp add: pdqsort_func.simps(2) [of "Suc fuel"])
        qed
      qed
    qed
  qed
qed

lemma sort_Slice_go_returns:
  "\<exists>d. pdqsort_func (length x + 1) lt x 0 (int (length x)) (int (bits_Len (length x))) True True = Some d
       \<and> sort_Slice_go lt x = d"
  using pdqsort_fuel [of "int (length x)" 0 "length x" lt x "int (bits_Len (length x))" True True]
  by (auto simp: sort_Slice_go_def)












end
